theory Spec2Isabelle
  imports Complex_Main "HOL-Library.Multiset"
begin

section \<open>Python exceptions and tensors\<close>

text \<open>
  Every \<^verbatim>\<open>assert\<close>, every exception of the interpreter and every shape error
  of the tensor library is a value: a function that can raise returns \<open>error + 'a\<close>,
  with \<open>Inl\<close> the exception.
\<close>

datatype error =
    AssertionError
  | TypeError
  | AttributeError
  | UnboundLocalError
  | IndexError
  | RuntimeError
  | ValueError
  | ZeroDivisionError

text \<open>
  A tensor is the nested list of its entries, outermost axis first; a tensor of shape
  \<open>(N, d_len, e_dim)\<close> is a list of \<open>N\<close> documents, each a list of \<open>d_len\<close> rows of
  \<open>e_dim\<close> entries. The empty list is a tensor with an empty first axis, whatever its other
  axes are. The type of the entries is the tensor's dtype.
\<close>

type_synonym 'a tensor1 = "'a list"
type_synonym 'a tensor2 = "'a list list"
type_synonym 'a tensor3 = "'a list list list"

definition size0 :: "'b list \<Rightarrow> nat" where
  "size0 t = length t"

definition size1 :: "'b list list \<Rightarrow> nat" where
  "size1 t = (case t of [] \<Rightarrow> 0 | m # _ \<Rightarrow> length m)"

text \<open>\<^verbatim>\<open>t.view(r, c)\<close>: the entries in row-major order, cut into \<open>r\<close> rows of \<open>c\<close>;
  it raises when the number of entries is not \<open>r * c\<close>.\<close>

definition view2 :: "'b list list \<Rightarrow> nat \<Rightarrow> nat \<Rightarrow> error + 'b list list" where
  "view2 t r c =
     (let flat = concat t in
      if length flat = r * c
      then Inr (map (\<lambda>i. take c (drop (i * c) flat)) [0..<r])
      else Inl RuntimeError)"

text \<open>\<^verbatim>\<open>t[padding] = v\<close> with a boolean index over the first two axes: every entry of a
  row whose index entry is true becomes \<open>v\<close>.\<close>

definition masked_assign :: "'a tensor3 \<Rightarrow> bool tensor2 \<Rightarrow> 'a \<Rightarrow> 'a tensor3" where
  "masked_assign t padding v =
     map (\<lambda>(doc, prow). map (\<lambda>(row, p). if p then map (\<lambda>_. v) row else row) (zip doc prow))
       (zip t padding)"

text \<open>\<^verbatim>\<open>t.max(1).values\<close>: the entrywise maximum of the rows of each document. The
  library raises on a reduction axis of size zero.\<close>

definition max_rows :: "('a::linorder) tensor2 \<Rightarrow> 'a tensor1" where
  "max_rows doc = foldl (\<lambda>acc row. map (\<lambda>(a, b). max a b) (zip acc row)) (hd doc) (tl doc)"

definition max_dim1 :: "('a::linorder) tensor3 \<Rightarrow> error + 'a tensor2" where
  "max_dim1 t = (if list_ex (\<lambda>doc. doc = []) t then Inl IndexError else Inr (map max_rows t))"

section \<open>The arithmetic of a dtype\<close>

text \<open>
  What the tensor library computes depends on the dtype of the tensors and on the device:
  the entries of a matrix product and the sums are rounded, and a Python number written
  into a tensor is converted to the dtype. The kernels of one dtype on one device:
  \<open>inner u v\<close> is the entry that \<^verbatim>\<open>@\<close> computes from a row \<open>u\<close> and a column \<open>v\<close>,
  \<open>scalar i\<close> is the Python integer \<open>i\<close> as stored in a tensor, and \<open>reduce_sum\<close> is
  \<^verbatim>\<open>sum\<close> over one row. The entries are linearly ordered, with NaN (where the dtype has
  one) above every number, as \<^verbatim>\<open>max\<close> returns NaN when it meets one.
\<close>

record 'a dtype =
  inner :: "'a list \<Rightarrow> 'a list \<Rightarrow> 'a"
  scalar :: "int \<Rightarrow> 'a"
  reduce_sum :: "'a list \<Rightarrow> 'a"

text \<open>Arithmetic without rounding, in an ordered ring: what every dtype computes as long
  as all values are exact in it.\<close>

definition dot :: "('a::semiring_0) list \<Rightarrow> 'a list \<Rightarrow> 'a" where
  "dot u v = sum_list (map (\<lambda>(x, y). x * y) (zip u v))"

definition exact_dtype :: "('a::linordered_idom) dtype" where
  "exact_dtype = \<lparr>inner = dot, scalar = of_int, reduce_sum = sum_list\<rparr>"

text \<open>
  Half precision (IEEE binary16, \<^verbatim>\<open>torch.float16\<close>), the dtype of the document
  embeddings that \<^verbatim>\<open>doc\<close> returns on the GPU: the finite values are the rationals
  \<open>n * 2^(e - 10)\<close> with \<open>|n| < 2048\<close> and \<open>-14 \<le> e \<le> 15\<close>, the greatest being 65504.
  \<open>round16\<close> rounds a rational to the nearest value, ties to the even one, and to an
  infinity beyond the range. The entries of a tensor are values that \<open>round16\<close> returns;
  inside a kernel \<open>Finite\<close> also holds the exact products.
\<close>

datatype binary16 = NegInf | Finite rat | PosInf | NaN

function bit_length :: "int \<Rightarrow> nat" where
  "bit_length n = (if n \<le> 0 then 0 else Suc (bit_length (n div 2)))"
  by auto

termination
  by (relation "measure nat") auto

declare bit_length.simps [simp del]

definition pow2 :: "int \<Rightarrow> rat" where
  "pow2 k = (if 0 \<le> k then 2 ^ nat k else 1 / 2 ^ nat (- k))"

definition round_even :: "rat \<Rightarrow> int" where
  "round_even y =
     (let f = \<lfloor>y\<rfloor>; d = y - of_int f
      in if d < 1 / 2 then f else if 1 / 2 < d then f + 1 else if even f then f else f + 1)"

text \<open>The exponent \<open>e\<close> of a positive rational \<open>a\<close>: \<open>2^e \<le> a < 2^(e + 1)\<close>, and \<open>-14\<close> for
  the subnormal range.\<close>

definition exponent16 :: "rat \<Rightarrow> int" where
  "exponent16 a =
     (if a * 16384 < 1 then - 14 else int (bit_length \<lfloor>a * 16384\<rfloor>) - 15)"

definition round16 :: "rat \<Rightarrow> binary16" where
  "round16 x =
     (if x = 0 then Finite 0
      else
        let a = \<bar>x\<bar>;
            q = pow2 (exponent16 a - 10);
            r = of_int (round_even (a / q)) * q
        in if 65504 < r then (if x < 0 then NegInf else PosInf)
           else Finite (if x < 0 then - r else r))"

text \<open>
  The half-precision kernels multiply and accumulate in single precision and round the
  result to half precision once. The accumulation is taken as exact here: \<open>float16\<close>
  is what the kernels compute on inputs whose products and partial sums are single
  precision values, in whatever order they are added, as they are for the small integers
  of the instances below. A product of an infinity with zero and a sum of both infinities
  are NaN. The two zeros are one value.
\<close>

fun sign16 :: "binary16 \<Rightarrow> int" where
  "sign16 NegInf = - 1"
| "sign16 (Finite x) = (if x < 0 then - 1 else if x = 0 then 0 else 1)"
| "sign16 PosInf = 1"
| "sign16 NaN = 0"

fun value16 :: "binary16 \<Rightarrow> rat" where
  "value16 (Finite x) = x"
| "value16 NegInf = 0"
| "value16 PosInf = 0"
| "value16 NaN = 0"

definition product16 :: "binary16 \<Rightarrow> binary16 \<Rightarrow> binary16" where
  "product16 a b =
     (case (a, b) of
        (Finite x, Finite y) \<Rightarrow> Finite (x * y)
      | _ \<Rightarrow>
          if a = NaN \<or> b = NaN \<or> sign16 a * sign16 b = 0 then NaN
          else if sign16 a * sign16 b < 0 then NegInf
          else PosInf)"

definition accumulate16 :: "binary16 list \<Rightarrow> binary16" where
  "accumulate16 xs =
     (if NaN \<in> set xs \<or> (PosInf \<in> set xs \<and> NegInf \<in> set xs) then NaN
      else if PosInf \<in> set xs then PosInf
      else if NegInf \<in> set xs then NegInf
      else round16 (sum_list (map value16 xs)))"

definition float16 :: "binary16 dtype" where
  "float16 =
     \<lparr>inner = (\<lambda>u v. accumulate16 (map (\<lambda>(x, y). product16 x y) (zip u v))),
      scalar = (\<lambda>i. round16 (of_int i)),
      reduce_sum = accumulate16\<rparr>"

text \<open>The order of the half-precision values:
  \<open>-inf < \<close> the finite values \<open> < +inf < NaN\<close>.\<close>

fun rank16 :: "binary16 \<Rightarrow> nat" where
  "rank16 NegInf = 0"
| "rank16 (Finite x) = 1"
| "rank16 PosInf = 2"
| "rank16 NaN = 3"

instantiation binary16 :: linorder
begin

definition less_eq_binary16 :: "binary16 \<Rightarrow> binary16 \<Rightarrow> bool" where
  "less_eq_binary16 a b =
     (rank16 a < rank16 b \<or> (rank16 a = rank16 b \<and> value16 a \<le> value16 b))"

definition less_binary16 :: "binary16 \<Rightarrow> binary16 \<Rightarrow> bool" where
  "less_binary16 a b = (a \<le> b \<and> \<not> b \<le> (a::binary16))"

instance
proof
  fix a b c :: binary16
  show "(a < b) = (a \<le> b \<and> \<not> b \<le> a)" by (simp add: less_binary16_def)
  show "a \<le> a" by (simp add: less_eq_binary16_def)
  show "a \<le> b \<Longrightarrow> b \<le> c \<Longrightarrow> a \<le> c" by (auto simp: less_eq_binary16_def)
  show "a \<le> b \<Longrightarrow> b \<le> a \<Longrightarrow> a = b"
    by (cases a; cases b) (auto simp: less_eq_binary16_def)
  show "a \<le> b \<or> b \<le> a" by (auto simp: less_eq_binary16_def)
qed

end

section \<open>Operations on tensors of a dtype\<close>

text \<open>\<^verbatim>\<open>t.sum(-1)\<close> of a two-axis tensor.\<close>

definition sum_last :: "'a dtype \<Rightarrow> 'a tensor2 \<Rightarrow> 'a tensor1" where
  "sum_last ar t = map (reduce_sum ar) t"

text \<open>\<^verbatim>\<open>D @ Q.permute(0, 2, 1)\<close>: for each document the matrix of the products of
  its rows with the query's rows. The batch axes broadcast: a single query is used for
  every document. The library raises when the embedding axes differ or the batch axes
  cannot be broadcast.\<close>

definition matmul_T :: "'a dtype \<Rightarrow> 'a tensor2 \<Rightarrow> 'a tensor2 \<Rightarrow> 'a tensor2" where
  "matmul_T ar d q = map (\<lambda>drow. map (\<lambda>qrow. inner ar drow qrow) q) d"

definition same_dim :: "'a tensor3 \<Rightarrow> 'a tensor3 \<Rightarrow> bool" where
  "same_dim D Q =
     list_all (\<lambda>d. list_all (\<lambda>r. list_all (\<lambda>q. list_all (\<lambda>s. length r = length s) q) Q) d) D"

definition matmul_permute :: "'a dtype \<Rightarrow> 'a tensor3 \<Rightarrow> 'a tensor3 \<Rightarrow> error + 'a tensor3" where
  "matmul_permute ar D Q =
     (if \<not> same_dim D Q then Inl RuntimeError
      else if length Q = 1 then Inr (map (\<lambda>d. matmul_T ar d (hd Q)) D)
      else if length D = 1 then Inr (map (\<lambda>q. matmul_T ar (hd D) q) Q)
      else if length Q = length D then Inr (map (\<lambda>(d, q). matmul_T ar d q) (zip D Q))
      else Inl RuntimeError)"

text \<open>A tensor has a shape when its nested lists have these lengths.\<close>

definition shape2 :: "'b list list \<Rightarrow> nat \<Rightarrow> nat \<Rightarrow> bool" where
  "shape2 t a b = (length t = a \<and> list_all (\<lambda>r. length r = b) t)"

definition shape3 :: "'b list list list \<Rightarrow> nat \<Rightarrow> nat \<Rightarrow> nat \<Rightarrow> bool" where
  "shape3 t a b c = (length t = a \<and> list_all (\<lambda>m. shape2 m b c) t)"

section \<open>Late-interaction scoring\<close>

text \<open>
  \<^verbatim>\<open>colbert_score_reduce(scores_padded, D_mask)\<close> writes into the tensor it is
  given, so the model returns that tensor as it is after the call together with the
  result (or the exception). \<open>ar\<close> is the arithmetic of the dtype of \<open>scores_padded\<close>:
  the number \<^verbatim>\<open>-9999\<close> is stored as that dtype has it.
\<close>

definition colbert_score_reduce ::
  "('a::linorder) dtype \<Rightarrow> 'a tensor3 \<Rightarrow> bool tensor2 \<Rightarrow> 'a tensor3 \<times> (error + 'a tensor1)" where
  "colbert_score_reduce ar scores_padded D_mask =
     (case view2 D_mask (size0 scores_padded) (size1 scores_padded) of
        Inl e \<Rightarrow> (scores_padded, Inl e)
      | Inr m \<Rightarrow>
          (let D_padding = map (map Not) m;
               scores_padded' = masked_assign scores_padded D_padding (scalar ar (- 9999))
           in (scores_padded',
               case max_dim1 scores_padded' of
                 Inl e \<Rightarrow> Inl e
               | Inr scores \<Rightarrow> Inr (sum_last ar scores))))"

text \<open>
  \<^verbatim>\<open>colbert_score(Q, D_padded, D_mask, use_gpu)\<close>. With \<^verbatim>\<open>use_gpu\<close> the tensors are
  moved by \<^verbatim>\<open>.cuda()\<close>: \<open>cuda\<close> is the arithmetic of the dtype of \<open>D_padded\<close> on the
  GPU, or the exception that \<^verbatim>\<open>.cuda()\<close> raises on a machine without one; \<open>device\<close> is
  the arithmetic of that dtype on the device the tensors are on. \<open>to_dtype\<close> is the
  conversion \<^verbatim>\<open>Q.to(dtype=D_padded.dtype)\<close> of one entry of the query tensor. The
  three arguments are tensors of three axes (the two first \<^verbatim>\<open>assert\<close>s hold).
\<close>

definition colbert_score ::
  "error + ('a::linorder) dtype \<Rightarrow> 'a dtype \<Rightarrow> ('q \<Rightarrow> 'a) \<Rightarrow>
   'q tensor3 \<Rightarrow> 'a tensor3 \<Rightarrow> bool tensor2 \<Rightarrow> bool \<Rightarrow> error + 'a tensor1" where
  "colbert_score cuda device to_dtype Q D_padded D_mask use_gpu =
     (case (if use_gpu then cuda else Inr device) of
        Inl e \<Rightarrow> Inl e
      | Inr ar \<Rightarrow>
          if \<not> (length Q = 1 \<or> length Q = length D_padded) then Inl AssertionError
          else case matmul_permute ar D_padded (map (map (map to_dtype)) Q) of
                 Inl e \<Rightarrow> Inl e
               | Inr scores \<Rightarrow> snd (colbert_score_reduce ar scores D_mask))"

section \<open>In-batch negative loss\<close>

text \<open>\<^verbatim>\<open>t.reshape(r, -1)\<close> of a one-axis tensor: \<open>r\<close> rows of equal length; it raises
  when \<open>r\<close> is zero or does not divide the number of entries.\<close>

definition reshape_rows :: "'b list \<Rightarrow> nat \<Rightarrow> error + 'b list list" where
  "reshape_rows t r =
     (if r = 0 \<or> length t mod r \<noteq> 0 then Inl RuntimeError
      else Inr (map (\<lambda>i. take (length t div r) (drop (i * (length t div r)) t)) [0..<r]))"

text \<open>\<^verbatim>\<open>t[i, j] = v\<close>, which raises out of range.\<close>

definition assign2 :: "'b list list \<Rightarrow> nat \<Rightarrow> nat \<Rightarrow> 'b \<Rightarrow> error + 'b list list" where
  "assign2 t i j v =
     (if i < length t \<and> j < length (t ! i) then Inr (t[i := (t ! i)[j := v]])
      else Inl IndexError)"

text \<open>\<^verbatim>\<open>torch.argmax(t, dim=1)\<close>: in each row the index of the first greatest entry.\<close>

definition argmax :: "int list \<Rightarrow> nat" where
  "argmax row = length (takeWhile (\<lambda>x. x \<noteq> Max (set row)) row)"

definition argmax_dim1 :: "int tensor2 \<Rightarrow> error + nat list" where
  "argmax_dim1 t = (if list_ex (\<lambda>r. r = []) t then Inl IndexError else Inr (map argmax t))"

text \<open>The loop \<^verbatim>\<open>for i in range(batch_size): in_batch_labels[i, step*i] = 1\<close>.\<close>

fun mark_positives :: "nat list \<Rightarrow> nat \<Rightarrow> int tensor2 \<Rightarrow> error + int tensor2" where
  "mark_positives [] step labels = Inr labels"
| "mark_positives (i # rest) step labels =
     (case assign2 labels i (step * i) 1 of
        Inl e \<Rightarrow> Inl e
      | Inr labels' \<Rightarrow> mark_positives rest step labels')"

text \<open>The label vector of \<^verbatim>\<open>compute_ib_loss_new\<close>, from \<^verbatim>\<open>batch_size = Q.shape[0]\<close>
  and \<^verbatim>\<open>batch_size_with_pos_and_neg = D.shape[0]\<close>.\<close>

definition in_batch_labels :: "nat \<Rightarrow> nat \<Rightarrow> error + nat list" where
  "in_batch_labels batch_size batch_size_with_pos_and_neg =
     (if batch_size = 0 then Inl ZeroDivisionError
      else
        let num_pos_and_neg = batch_size_with_pos_and_neg div batch_size;
            step = num_pos_and_neg
        in case mark_positives [0..<batch_size] step
                  (replicate batch_size (replicate batch_size_with_pos_and_neg 0)) of
             Inl e \<Rightarrow> Inl e
           | Inr labels \<Rightarrow> argmax_dim1 labels)"

text \<open>\<^verbatim>\<open>(D.unsqueeze(0) @ Q.permute(0, 2, 1).unsqueeze(1)).flatten(0, 1)\<close>: the similarity
  matrices of every query with every document, query-major.\<close>

definition cross_scores :: "'a dtype \<Rightarrow> 'a tensor3 \<Rightarrow> 'a tensor3 \<Rightarrow> error + 'a tensor3" where
  "cross_scores ar D Q =
     (if \<not> same_dim D Q then Inl RuntimeError
      else Inr (concat (map (\<lambda>q. map (\<lambda>d. matmul_T ar d q) D) Q)))"

text \<open>
  \<^verbatim>\<open>compute_ib_loss_new(self, Q, D, D_mask)\<close>. \<open>to_float\<close> is the conversion
  \<^verbatim>\<open>.float()\<close> of one entry to single precision, \<open>ar\<close> is the single precision
  arithmetic of the tensors' device, and \<open>loss_fn\<close> is the model's
  \<^verbatim>\<open>torch.nn.CrossEntropyLoss()\<close>, applied to the score matrix and the labels.
\<close>

definition compute_ib_loss_new ::
  "('a::linorder) dtype \<Rightarrow> ('h \<Rightarrow> 'a) \<Rightarrow> ('a tensor2 \<Rightarrow> nat list \<Rightarrow> 'l) \<Rightarrow>
   'h tensor3 \<Rightarrow> 'h tensor3 \<Rightarrow> bool tensor2 \<Rightarrow> error + 'l" where
  "compute_ib_loss_new ar to_float loss_fn Q D D_mask =
     (case cross_scores ar (map (map (map to_float)) D) (map (map (map to_float)) Q) of
        Inl e \<Rightarrow> Inl e
      | Inr scores \<Rightarrow>
     (case snd (colbert_score_reduce ar scores (concat (replicate (length Q) D_mask))) of
        Inl e \<Rightarrow> Inl e
      | Inr scores' \<Rightarrow>
     (case reshape_rows scores' (length Q) of
        Inl e \<Rightarrow> Inl e
      | Inr in_batch_scores \<Rightarrow>
     (case in_batch_labels (length Q) (length D) of
        Inl e \<Rightarrow> Inl e
      | Inr labels \<Rightarrow> Inr (loss_fn in_batch_scores labels)))))"

section \<open>The packed scoring path\<close>

text \<open>
  \<^verbatim>\<open>colbert_score_packed(Q, D_packed, D_lengths, config)\<close> takes a \<^verbatim>\<open>ColBERTConfig\<close>, of
  which it reads two fields.
\<close>

record colbert_config =
  total_visible_gpus :: nat
  interaction :: string

text \<open>
  A call \<^verbatim>\<open>colbert_score_reduce(...)\<close> binds its positional arguments to the two
  parameters \<^verbatim>\<open>(scores_padded, D_mask)\<close> of the function; any other number of
  arguments is a \<^verbatim>\<open>TypeError\<close>.
\<close>

datatype 'a argument = Scores "'a tensor3" | Mask "bool tensor2" | Config colbert_config

definition call_colbert_score_reduce ::
  "('a::linorder) dtype \<Rightarrow> 'a argument list \<Rightarrow> error + 'a tensor1" where
  "call_colbert_score_reduce ar args =
     (case args of
        [Scores scores_padded, Mask D_mask] \<Rightarrow> snd (colbert_score_reduce ar scores_padded D_mask)
      | _ \<Rightarrow> Inl TypeError)"

text \<open>\<^verbatim>\<open>D_packed @ Q.T\<close> for two-axis tensors.\<close>

definition matmul_2d :: "'a dtype \<Rightarrow> 'a tensor2 \<Rightarrow> 'a tensor2 \<Rightarrow> error + 'a tensor2" where
  "matmul_2d ar d q =
     (if list_all (\<lambda>r. list_all (\<lambda>s. length r = length s) q) d then Inr (matmul_T ar d q)
      else Inl RuntimeError)"

text \<open>
  The padding of the packed scores, \<^verbatim>\<open>StridedTensor(scores, D_lengths).as_padded_tensor()\<close>,
  belongs to the \<^verbatim>\<open>colbert\<close> package and is a parameter here. The class attribute
  \<^verbatim>\<open>FLMRModelForRetrieval.segmented_maxsim\<close> exists only once
  \<^verbatim>\<open>try_load_torch_extensions\<close> has loaded the extension: \<open>None\<close> when it has not.
  \<open>cuda\<close>, \<open>device\<close> and \<open>to_dtype\<close> are as for \<open>colbert_score\<close>, for the dtype of
  \<open>D_packed\<close>.
\<close>

definition colbert_score_packed ::
  "error + ('a::linorder) dtype \<Rightarrow> 'a dtype \<Rightarrow> ('q \<Rightarrow> 'a) \<Rightarrow>
   ('a tensor2 \<Rightarrow> nat list \<Rightarrow> error + 'a tensor3 \<times> bool tensor2) \<Rightarrow>
   ('a tensor2 \<Rightarrow> nat list \<Rightarrow> error + 'a tensor1) option \<Rightarrow>
   'q tensor3 \<Rightarrow> 'a tensor2 \<Rightarrow> nat list \<Rightarrow> colbert_config \<Rightarrow> error + 'a tensor1" where
  "colbert_score_packed cuda device to_dtype as_padded_tensor segmented_maxsim Q D_packed
     D_lengths config =
     (let use_gpu = (0 < total_visible_gpus config) in
      case (if use_gpu then cuda else Inr device) of
        Inl e \<Rightarrow> Inl e
      | Inr ar \<Rightarrow>
          if length Q \<noteq> 1 then Inl AssertionError
          else case matmul_2d ar D_packed (map (map to_dtype) (hd Q)) of
            Inl e \<Rightarrow> Inl e
          | Inr scores \<Rightarrow>
              if use_gpu \<or> interaction config = ''flipr''
              then (case as_padded_tensor scores D_lengths of
                      Inl e \<Rightarrow> Inl e
                    | Inr (scores_padded, scores_mask) \<Rightarrow>
                        call_colbert_score_reduce ar
                          [Scores scores_padded, Mask scores_mask, Config config])
              else (case segmented_maxsim of
                      None \<Rightarrow> Inl AttributeError
                    | Some f \<Rightarrow> f scores D_lengths))"

text \<open>\<^verbatim>\<open>try_load_torch_extensions(cls, use_gpu)\<close> on the class attribute: it returns at
  once when the extension is loaded or \<open>use_gpu\<close> holds, and the constructor calls it with
  \<^verbatim>\<open>self.use_gpu = True\<close>. \<open>load\<close> is the compiled extension.\<close>

definition try_load_torch_extensions :: "'f option \<Rightarrow> 'f \<Rightarrow> bool \<Rightarrow> 'f option" where
  "try_load_torch_extensions loaded load use_gpu =
     (if loaded \<noteq> None \<or> use_gpu then loaded else Some load)"

section \<open>Gathering across workers\<close>

text \<open>
  The distributed layer (\<^verbatim>\<open>torch.distributed\<close>): the world size, this worker's rank, and
  for each of the three tensors what \<^verbatim>\<open>all_gather\<close> writes into the placeholders, one
  tensor per rank. A tensor is the list of its rows along the batch axis, so
  \<^verbatim>\<open>torch.cat\<close> is \<open>concat\<close>.
\<close>

record ('q, 'd, 'm) dist =
  get_world_size :: nat
  get_rank :: nat
  all_gather_query :: "'q list \<Rightarrow> 'q list list"
  all_gather_item :: "'d list \<Rightarrow> 'd list list"
  all_gather_mask :: "'m list \<Rightarrow> 'm list list"

text \<open>The loops over \<^verbatim>\<open>enumerate(placeholder)\<close>: the worker's own tensor stands in its
  own slot.\<close>

definition own_slot :: "nat \<Rightarrow> 't \<Rightarrow> 't list \<Rightarrow> 't list" where
  "own_slot current_rank own gathered =
     map (\<lambda>(rank_index, remote). if rank_index \<noteq> current_rank then remote else own)
       (enumerate 0 gathered)"

definition gather_tensors_from_other_gpus ::
  "('q, 'd, 'm) dist \<Rightarrow> 'q list \<Rightarrow> 'd list \<Rightarrow> 'm list \<Rightarrow> 'q list \<times> 'd list \<times> 'm list" where
  "gather_tensors_from_other_gpus env query_embeddings item_embeddings item_mask =
     (let n_nodes = get_world_size env in
      if n_nodes = 1 then (query_embeddings, item_embeddings, item_mask)
      else
        let global_query_embeddings_placeholder = all_gather_query env query_embeddings;
            global_item_embeddings_placeholder = all_gather_item env item_embeddings;
            global_item_mask_placeholder = all_gather_mask env item_mask;
            current_rank = get_rank env
        in (concat (own_slot current_rank query_embeddings global_query_embeddings_placeholder),
            concat (own_slot current_rank item_embeddings global_item_embeddings_placeholder),
            concat (own_slot current_rank item_mask global_item_mask_placeholder)))"


section \<open>The multimodal encoders\<close>

text \<open>
  The model object: the fields of \<^verbatim>\<open>FLMRConfig\<close> that the encoding reads, and the
  networks as functions. A text encoder maps the token ids and the attention mask of a
  batch to one hidden vector per token; the linear layers and the mapping networks act on
  single vectors; a vision encoder maps the pixels of one image to the hidden state of its
  first position. \<open>text_encoder_embedding_size\<close> is \<^verbatim>\<open>config.dim\<close>, as the
  constructor sets it. \<open>skiplist\<close> is the attribute the constructor sets only when
  \<^verbatim>\<open>mask_punctuation\<close> holds, \<open>normalize\<close> is the L2 normalisation of one vector and
  \<open>half\<close> the conversion of one entry to half precision.
\<close>

record ('a, 'px) flmr =
  query_concat_output_from_vision_encoder :: bool
  query_concat_output_from_text_encoder :: bool
  context_concat_output_from_vision_encoder :: bool
  context_concat_output_from_text_encoder :: bool
  mapping_network_prefix_length :: nat
  text_encoder_embedding_size :: nat
  query_text_encoder :: "nat tensor2 \<Rightarrow> nat tensor2 \<Rightarrow> 'a tensor3"
  query_text_encoder_linear :: "'a list \<Rightarrow> 'a list"
  context_text_encoder :: "nat tensor2 \<Rightarrow> nat tensor2 \<Rightarrow> 'a tensor3"
  context_text_encoder_linear :: "'a list \<Rightarrow> 'a list"
  query_vision_encoder :: "'px \<Rightarrow> 'a list"
  query_vision_projection :: "'a list \<Rightarrow> 'a list"
  context_vision_encoder :: "'px \<Rightarrow> 'a list"
  context_vision_projection :: "'a list \<Rightarrow> 'a list"
  skiplist :: "nat list option"
  use_gpu :: bool
  normalize :: "'a list \<Rightarrow> 'a list"
  half :: "'a \<Rightarrow> 'a"

record 'a FLMRQuestionEncoderOutput =
  question_pooler_output :: "'a tensor2"
  question_late_interaction_output :: "'a tensor3"

record 'a FLMRContextEncoderOutput =
  pooler_output :: "'a tensor2"
  late_interaction_output :: "'a tensor3"
  context_mask :: "bool tensor2 option"

text \<open>The values \<^verbatim>\<open>True\<close>, \<^verbatim>\<open>False\<close>, \<^verbatim>\<open>'return_mask'\<close> and \<^verbatim>\<open>'flatten'\<close> of
  \<^verbatim>\<open>keep_dims\<close>.\<close>

datatype keep_dims = Keep_True | Keep_False | Keep_return_mask | Keep_flatten

text \<open>\<^verbatim>\<open>mask(self, input_ids, skiplist)\<close>.\<close>

definition mask_ids :: "nat tensor2 \<Rightarrow> nat list \<Rightarrow> bool tensor2" where
  "mask_ids input_ids skip = map (map (\<lambda>x. x \<notin> set skip \<and> x \<noteq> 0)) input_ids"

text \<open>\<^verbatim>\<open>text_embeddings * mask\<close> with the mask as \<open>1.0\<close> and \<open>0.0\<close>; the encoder gives
  one vector per token, and the library raises when the two shapes differ.\<close>

definition mul_mask :: "('a::semiring_1) tensor3 \<Rightarrow> bool tensor2 \<Rightarrow> error + 'a tensor3" where
  "mul_mask t m =
     (if length t = length m \<and> list_all (\<lambda>(d, r). length d = length r) (zip t m)
      then Inr (map (\<lambda>(d, r). map (\<lambda>(v, keep). map (\<lambda>x. x * (if keep then 1 else 0)) v) (zip d r))
                  (zip t m))
      else Inl RuntimeError)"

text \<open>\<^verbatim>\<open>t.view(-1, p, d)\<close> of a two-axis tensor.\<close>

definition view_prefix :: "'a tensor2 \<Rightarrow> nat \<Rightarrow> nat \<Rightarrow> error + 'a tensor3" where
  "view_prefix t p d =
     (let flat = concat t in
      if p * d = 0 \<or> length flat mod (p * d) \<noteq> 0 then Inl RuntimeError
      else Inr (map (\<lambda>i. map (\<lambda>j. take d (drop ((i * p + j) * d) flat)) [0..<p])
                  [0..<length flat div (p * d)]))"

text \<open>\<^verbatim>\<open>torch.cat([a, b], dim=1)\<close>: the rows of \<open>b\<close> after the rows of \<open>a\<close>, document by
  document.\<close>

definition cat_dim1 :: "'b list list \<Rightarrow> 'b list list \<Rightarrow> error + 'b list list" where
  "cat_dim1 a b =
     (if length a = length b then Inr (map (\<lambda>(x, y). x @ y) (zip a b)) else Inl RuntimeError)"

text \<open>\<^verbatim>\<open>t[:, 0, :]\<close>.\<close>

definition first_position :: "'a tensor3 \<Rightarrow> error + 'a tensor2" where
  "first_position t = (if list_ex (\<lambda>d. d = []) t then Inl IndexError else Inr (map hd t))"

text \<open>\<^verbatim>\<open>d[m]\<close> with a boolean index \<open>m\<close> over the rows of \<open>d\<close>.\<close>

definition boolean_index :: "'b list \<Rightarrow> bool list \<Rightarrow> error + 'b list" where
  "boolean_index d m =
     (if length d = length m then Inr (map fst (filter snd (zip d m))) else Inl IndexError)"

text \<open>
  The text branch of \<^verbatim>\<open>query\<close> and \<^verbatim>\<open>doc\<close>: \<open>None\<close> when the text modality is not
  among the inputs (the variables \<^verbatim>\<open>text_embeddings\<close> and \<^verbatim>\<open>mask\<close> stay unbound),
  otherwise the masked embeddings and the mask. The mask is built from the nested list of
  the ids: for a batch of no rows it is \<^verbatim>\<open>torch.tensor([])\<close>, of one axis, and
  \<^verbatim>\<open>.unsqueeze(2)\<close> raises.
\<close>

definition text_branch ::
  "(nat tensor2 \<Rightarrow> nat tensor2 \<Rightarrow> ('a::semiring_1) tensor3) \<Rightarrow> ('a list \<Rightarrow> 'a list) \<Rightarrow>
   nat list option \<Rightarrow> nat tensor2 option \<Rightarrow> nat tensor2 option \<Rightarrow>
   error + ('a tensor3 \<times> bool tensor2) option" where
  "text_branch encoder linear_layer skip input_ids attention_mask =
     (case (input_ids, attention_mask) of
        (Some ids, Some am) \<Rightarrow>
          (let text_embeddings = map (map linear_layer) (encoder ids am) in
           case skip of
             None \<Rightarrow> Inl AttributeError
           | Some sl \<Rightarrow>
               (let msk = mask_ids ids sl in
                if msk = [] then Inl IndexError
                else case mul_mask text_embeddings msk of
                  Inl e \<Rightarrow> Inl e
                | Inr text_embeddings' \<Rightarrow> Inr (Some (text_embeddings', msk))))
      | _ \<Rightarrow> Inr None)"

text \<open>
  The image branch: \<open>None\<close> when no image input is given, otherwise the pseudo-tokens of
  shape \<open>(-1, prefix_length, embedding_size)\<close> and \<^verbatim>\<open>batch_size\<close>, the number of images. Both
  inputs at once fail the second \<^verbatim>\<open>assert\<close>.
\<close>

definition image_branch ::
  "('px \<Rightarrow> 'a list) \<Rightarrow> ('a list \<Rightarrow> 'a list) \<Rightarrow> nat \<Rightarrow> nat \<Rightarrow>
   'px list option \<Rightarrow> 'a tensor2 option \<Rightarrow> error + ('a tensor3 \<times> nat) option" where
  "image_branch encoder projection prefix_length embedding_size pixel_values image_features =
     (case (pixel_values, image_features) of
        (None, None) \<Rightarrow> Inr None
      | (Some px, Some f) \<Rightarrow> Inl AssertionError
      | (Some px, None) \<Rightarrow>
          (let vision_embeddings = map encoder px; batch_size = length vision_embeddings in
           case view_prefix (map projection vision_embeddings) prefix_length embedding_size of
             Inl e \<Rightarrow> Inl e
           | Inr v \<Rightarrow> Inr (Some (v, batch_size)))
      | (None, Some f) \<Rightarrow>
          (let vision_embeddings = f; batch_size = length vision_embeddings in
           case view_prefix (map projection vision_embeddings) prefix_length embedding_size of
             Inl e \<Rightarrow> Inl e
           | Inr v \<Rightarrow> Inr (Some (v, batch_size))))"

text \<open>The concatenation step of \<^verbatim>\<open>query\<close>.\<close>

definition concat_query ::
  "bool \<Rightarrow> bool \<Rightarrow> ('a tensor3 \<times> nat) option \<Rightarrow> ('a tensor3 \<times> bool tensor2) option \<Rightarrow>
   error + 'a tensor3" where
  "concat_query concat_vision concat_text img txt =
     (if concat_vision \<and> concat_text then
        (case (img, txt) of
           (Some (vision_embeddings, batch_size), Some (text_embeddings, msk)) \<Rightarrow>
             cat_dim1 vision_embeddings text_embeddings
         | _ \<Rightarrow> Inl UnboundLocalError)
      else if concat_vision then
        (case img of
           Some (vision_embeddings, batch_size) \<Rightarrow> Inr vision_embeddings
         | None \<Rightarrow> Inl UnboundLocalError)
      else if concat_text then
        (case txt of
           Some (text_embeddings, msk) \<Rightarrow> Inr text_embeddings
         | None \<Rightarrow> Inl UnboundLocalError)
      else Inl UnboundLocalError)"

text \<open>\<^verbatim>\<open>FLMRModelForRetrieval.query\<close>. The image assertions come before the text
  encoder runs; the query side masks with the empty skiplist.\<close>

definition query ::
  "(('a::semiring_1), 'px) flmr \<Rightarrow> nat tensor2 option \<Rightarrow> nat tensor2 option \<Rightarrow> 'px list option \<Rightarrow>
   'a tensor2 option \<Rightarrow> bool option \<Rightarrow> bool option \<Rightarrow> error + 'a FLMRQuestionEncoderOutput" where
  "query m input_ids attention_mask pixel_values image_features
     concat_output_from_vision_encoder concat_output_from_text_encoder =
     (let concat_vision = (case concat_output_from_vision_encoder of
                             None \<Rightarrow> query_concat_output_from_vision_encoder m | Some b \<Rightarrow> b);
          concat_text = (case concat_output_from_text_encoder of
                           None \<Rightarrow> query_concat_output_from_text_encoder m | Some b \<Rightarrow> b)
      in if pixel_values \<noteq> None \<and> image_features \<noteq> None then Inl AssertionError
         else
           case text_branch (query_text_encoder m) (query_text_encoder_linear m) (Some [])
                  input_ids attention_mask of
             Inl e \<Rightarrow> Inl e
           | Inr txt \<Rightarrow>
           (case image_branch (query_vision_encoder m) (query_vision_projection m)
                   (mapping_network_prefix_length m) (text_encoder_embedding_size m)
                   pixel_values image_features of
              Inl e \<Rightarrow> Inl e
            | Inr img \<Rightarrow>
            (case concat_query concat_vision concat_text img txt of
               Inl e \<Rightarrow> Inl e
             | Inr Q \<Rightarrow>
             (case first_position Q of
                Inl e \<Rightarrow> Inl e
              | Inr pooled \<Rightarrow>
                  Inr \<lparr>question_pooler_output = pooled,
                       question_late_interaction_output = map (map (normalize m)) Q\<rparr>))))"

text \<open>The list comprehension \<^verbatim>\<open>[d[mask[idx]] for idx, d in enumerate(D)]\<close> of the ragged
  mode: of each document the rows whose mask entry is true.\<close>

definition ragged_rows :: "'a tensor3 \<Rightarrow> bool tensor2 \<Rightarrow> error + 'a tensor3" where
  "ragged_rows D msk =
     (if length msk < length D then Inl IndexError
      else if list_ex (\<lambda>(d, r). length d \<noteq> length r) (zip D msk) then Inl IndexError
      else Inr (map (\<lambda>(d, r). map fst (filter snd (zip d r))) (zip D msk)))"

text \<open>
  The concatenation step of \<^verbatim>\<open>doc\<close>, on what the two branches bound (\<open>None\<close>: the
  variable is unbound). With both modalities the embeddings are concatenated as
  \<^verbatim>\<open>[vision_embeddings, text_embeddings]\<close> and the masks as \<^verbatim>\<open>[mask, image_mask]\<close>;
  \<^verbatim>\<open>image_mask\<close> is \<^verbatim>\<open>torch.ones(batch_size, prefix_length, 1)\<close>.
\<close>

definition concat_context ::
  "nat \<Rightarrow> bool \<Rightarrow> bool \<Rightarrow> ('a tensor3 \<times> nat) option \<Rightarrow> ('a tensor3 \<times> bool tensor2) option \<Rightarrow>
   error + 'a tensor3 \<times> bool tensor2" where
  "concat_context prefix_length concat_vision concat_text img txt =
     (if concat_vision \<and> concat_text then
        (case (img, txt) of
           (Some (vision_embeddings, batch_size), Some (text_embeddings, msk)) \<Rightarrow>
             (let image_mask = replicate batch_size (replicate prefix_length True)
              in case cat_dim1 vision_embeddings text_embeddings of
                   Inl e \<Rightarrow> Inl e
                 | Inr D \<Rightarrow>
                     (case cat_dim1 msk image_mask of
                        Inl e \<Rightarrow> Inl e
                      | Inr msk' \<Rightarrow> Inr (D, msk')))
         | _ \<Rightarrow> Inl UnboundLocalError)
      else if concat_vision then
        (case img of
           Some (vision_embeddings, batch_size) \<Rightarrow>
             Inr (vision_embeddings, replicate batch_size (replicate prefix_length True))
         | None \<Rightarrow> Inl UnboundLocalError)
      else if concat_text then
        (case txt of
           Some (text_embeddings, msk) \<Rightarrow> Inr (text_embeddings, msk)
         | None \<Rightarrow> Inl UnboundLocalError)
      else Inl UnboundLocalError)"

text \<open>
  The end of \<^verbatim>\<open>doc\<close>: normalisation, half precision on the GPU, and the output. With
  \<^verbatim>\<open>keep_dims\<close> false, \<open>D\<close> becomes a Python list of the selected rows, and the
  \<^verbatim>\<open>D[:, 0, :]\<close> of the return statement is applied to that list.
\<close>

definition context_output ::
  "('a, 'px) flmr \<Rightarrow> 'a tensor3 \<Rightarrow> bool tensor2 \<Rightarrow> keep_dims \<Rightarrow> bool \<Rightarrow>
   error + 'a FLMRContextEncoderOutput" where
  "context_output m D0 msk keep_dims return_mask =
     (let D1 = map (map (normalize m)) D0;
          D = (if use_gpu m then map (map (map (half m))) D1 else D1)
      in if keep_dims = Keep_False then
           (case ragged_rows D msk of
              Inl e \<Rightarrow> Inl e
            | Inr D_list \<Rightarrow> Inl TypeError)
         else
           (case first_position D of
              Inl e \<Rightarrow> Inl e
            | Inr pooled \<Rightarrow>
                Inr \<lparr>pooler_output = pooled,
                     late_interaction_output = D,
                     context_mask = (if return_mask then Some msk else None)\<rparr>))"

text \<open>\<^verbatim>\<open>FLMRModelForRetrieval.doc\<close>.\<close>

definition doc ::
  "(('a::semiring_1), 'px) flmr \<Rightarrow> nat tensor2 option \<Rightarrow> nat tensor2 option \<Rightarrow> 'px list option \<Rightarrow>
   'a tensor2 option \<Rightarrow> bool option \<Rightarrow> bool option \<Rightarrow> keep_dims \<Rightarrow> bool \<Rightarrow>
   error + 'a FLMRContextEncoderOutput" where
  "doc m input_ids attention_mask pixel_values image_features
     concat_output_from_vision_encoder concat_output_from_text_encoder keep_dims return_mask =
     (if keep_dims = Keep_flatten then Inl AssertionError
      else
      let concat_vision = (case concat_output_from_vision_encoder of
                             None \<Rightarrow> context_concat_output_from_vision_encoder m | Some b \<Rightarrow> b);
          concat_text = (case concat_output_from_text_encoder of
                           None \<Rightarrow> context_concat_output_from_text_encoder m | Some b \<Rightarrow> b)
      in if pixel_values \<noteq> None \<and> image_features \<noteq> None then Inl AssertionError
         else
           case text_branch (context_text_encoder m) (context_text_encoder_linear m) (skiplist m)
                  input_ids attention_mask of
             Inl e \<Rightarrow> Inl e
           | Inr txt \<Rightarrow>
           (case image_branch (context_vision_encoder m) (context_vision_projection m)
                   (mapping_network_prefix_length m) (text_encoder_embedding_size m)
                   pixel_values image_features of
              Inl e \<Rightarrow> Inl e
            | Inr img \<Rightarrow>
            (case concat_context (mapping_network_prefix_length m) concat_vision concat_text
                    img txt of
               Inl e \<Rightarrow> Inl e
             | Inr (D0, msk) \<Rightarrow> context_output m D0 msk keep_dims return_mask)))"

text \<open>A small model for concrete runs: one-entry embeddings, a prefix of two
  pseudo-tokens, identity networks, an empty skiplist.\<close>

definition example_model :: "(int, int) flmr" where
  "example_model =
     \<lparr>query_concat_output_from_vision_encoder = True,
      query_concat_output_from_text_encoder = True,
      context_concat_output_from_vision_encoder = False,
      context_concat_output_from_text_encoder = True,
      mapping_network_prefix_length = 2,
      text_encoder_embedding_size = 1,
      query_text_encoder = (\<lambda>ids am. map (map (\<lambda>x. [int x])) ids),
      query_text_encoder_linear = (\<lambda>v. v),
      context_text_encoder = (\<lambda>ids am. map (map (\<lambda>x. [int x])) ids),
      context_text_encoder_linear = (\<lambda>v. v),
      query_vision_encoder = (\<lambda>p. [p]),
      query_vision_projection = (\<lambda>v. v @ v),
      context_vision_encoder = (\<lambda>p. [p]),
      context_vision_projection = (\<lambda>v. v @ v),
      skiplist = Some [],
      use_gpu = True,
      normalize = (\<lambda>v. v),
      half = (\<lambda>x. x)\<rparr>"


section \<open>Batch encoding of a collection\<close>

text \<open>\<^verbatim>\<open>t[index]\<close> with a tensor of row indices, which raises out of range.\<close>

definition index_rows :: "'b list \<Rightarrow> nat list \<Rightarrow> error + 'b list" where
  "index_rows t idx =
     (if list_all (\<lambda>i. i < length t) idx then Inr (map (\<lambda>i. t ! i) idx) else Inl IndexError)"

text \<open>\<^verbatim>\<open>torch.cat(ts)\<close> along the batch axis: it raises on an empty list and when the
  documents of the tensors differ in length.\<close>

definition cat_dim0 :: "'b list list list \<Rightarrow> error + 'b list list" where
  "cat_dim0 ts =
     (case ts of
        [] \<Rightarrow> Inl RuntimeError
      | t # _ \<Rightarrow>
          if list_all (\<lambda>u. list_all (\<lambda>d. length d = size1 t) u) ts then Inr (concat ts)
          else Inl RuntimeError)"

text \<open>\<^verbatim>\<open>t.view(-1, d)\<close> of a three-axis tensor: all entries in order, in rows of \<open>d\<close>.\<close>

definition view_rows :: "'a tensor3 \<Rightarrow> nat \<Rightarrow> error + 'a tensor2" where
  "view_rows t d =
     (let flat = concat (concat t) in
      if d = 0 \<or> length flat mod d \<noteq> 0 then Inl RuntimeError
      else Inr (map (\<lambda>i. take d (drop (i * d) flat)) [0..<length flat div d]))"

text \<open>A loop that runs a failing step over a list and stops at the first exception.\<close>

fun for_each :: "('b \<Rightarrow> error + 'c) \<Rightarrow> 'b list \<Rightarrow> error + 'c list" where
  "for_each f [] = Inr []"
| "for_each f (x # xs) =
     (case f x of
        Inl e \<Rightarrow> Inl e
      | Inr y \<Rightarrow> (case for_each f xs of Inl e \<Rightarrow> Inl e | Inr ys \<Rightarrow> Inr (y # ys)))"

text \<open>
  \<^verbatim>\<open>FLMRModelForIndexing.doc\<close>: \<open>doc\<close> without gradients; with \<^verbatim>\<open>to_cpu\<close> it calls
  \<^verbatim>\<open>.cpu()\<close> on the output object, which is no tuple and has no such attribute.
\<close>

definition indexing_doc ::
  "(('a::semiring_1), 'px) flmr \<Rightarrow> nat tensor2 option \<Rightarrow> nat tensor2 option \<Rightarrow> 'px list option \<Rightarrow>
   'a tensor2 option \<Rightarrow> keep_dims \<Rightarrow> bool \<Rightarrow> bool \<Rightarrow> error + 'a FLMRContextEncoderOutput" where
  "indexing_doc m input_ids attention_mask pixel_values image_features keep_dims return_mask to_cpu =
     (case doc m input_ids attention_mask pixel_values image_features None None keep_dims return_mask of
        Inl e \<Rightarrow> Inl e
      | Inr D \<Rightarrow> if to_cpu then Inl AttributeError else Inr D)"

text \<open>
  The collection given to \<^verbatim>\<open>docFromText\<close>: a list of texts, or a list of tuples
  \<^verbatim>\<open>(text, image_feature, image_path)\<close>.
\<close>

datatype ('a, 'p) docs =
    Texts "string list"
  | Tuples "(string \<times> 'a list option \<times> 'p option) list"

text \<open>
  The first part of \<^verbatim>\<open>docFromText\<close>: the texts and, for tuples, the stacked image
  features (when the first one is present; \<^verbatim>\<open>np.stack\<close> raises when another one is
  missing) with the image paths. \<^verbatim>\<open>docs[0]\<close> raises on an empty collection.
\<close>

definition unpack_docs ::
  "('a, 'p) docs \<Rightarrow> error + string list \<times> ('a tensor2 option \<times> 'p option list) option" where
  "unpack_docs docs =
     (case docs of
        Texts [] \<Rightarrow> Inl IndexError
      | Texts (t # ts) \<Rightarrow> Inr (t # ts, None)
      | Tuples [] \<Rightarrow> Inl IndexError
      | Tuples ((text, image_feature, image_path) # rest) \<Rightarrow>
          (let ds = (text, image_feature, image_path) # rest;
               texts = map fst ds;
               image_features = map (\<lambda>d. fst (snd d)) ds;
               image_paths = map (\<lambda>d. snd (snd d)) ds
           in if image_feature \<noteq> None
              then (if list_all (\<lambda>f. f \<noteq> None) image_features
                    then Inr (texts, Some (Some (concat (map (\<lambda>f. case f of None \<Rightarrow> [] | Some v \<Rightarrow> [v])
                                                         image_features)),
                                           image_paths))
                    else Inl ValueError)
              else Inr (texts, Some (None, image_paths))))"

text \<open>
  Modelled from the spec: \<^verbatim>\<open>_sort_by_length\<close> and \<^verbatim>\<open>_split_into_batches\<close> are
  imported from the \<^verbatim>\<open>colbert\<close> package and are not among the sources. The spec:
  sort the documents by token length ascending, recording the permutation that restores
  the original order (ReverseIndices, the inverse permutation of the sort), with the
  parallel arrays reordered by the same sort key; then split the sorted sequence into
  contiguous chunks of at most the batch size, preserving the order within a chunk.
  The token length of a document is the sum of its attention mask; \<open>argsort\<close> is a stable
  sort of the positions by their keys.
\<close>

definition argsort :: "nat list \<Rightarrow> nat list" where
  "argsort keys = map snd (sort_key fst (zip keys [0..<length keys]))"

definition sort_indices :: "nat tensor2 \<Rightarrow> nat list" where
  "sort_indices attention_mask = argsort (map sum_list attention_mask)"

definition reverse_of :: "nat list \<Rightarrow> nat list" where
  "reverse_of indices = argsort indices"

definition n_batches :: "nat \<Rightarrow> nat \<Rightarrow> nat" where
  "n_batches n bsize = (n + bsize - 1) div bsize"

definition chunk :: "nat \<Rightarrow> nat \<Rightarrow> 'b list \<Rightarrow> 'b list" where
  "chunk bsize i xs = take bsize (drop (i * bsize) xs)"

text \<open>A batch is the tuple \<^verbatim>\<open>(ids, mask)\<close> of a text collection or the tuple
  \<^verbatim>\<open>(ids, mask, image_features, image_paths)\<close> of a multimodal one.\<close>

datatype ('a, 'p) batch =
    TextBatch "nat tensor2" "nat tensor2"
  | MultiBatch "nat tensor2" "nat tensor2" "'a tensor2 option" "'p option list"

definition sort_and_split ::
  "nat tensor2 \<Rightarrow> nat tensor2 \<Rightarrow> ('a tensor2 option \<times> 'p option list) option \<Rightarrow> nat \<Rightarrow>
   error + ('a, 'p) batch list \<times> nat list" where
  "sort_and_split ids msk images bsize =
     (let indices = sort_indices msk;
          reverse_indices = reverse_of indices;
          n = n_batches (length indices) bsize
      in case index_rows ids indices of
           Inl e \<Rightarrow> Inl e
         | Inr ids' \<Rightarrow>
         (case index_rows msk indices of
            Inl e \<Rightarrow> Inl e
          | Inr msk' \<Rightarrow>
          (case images of
             None \<Rightarrow>
               Inr (map (\<lambda>i. TextBatch (chunk bsize i ids') (chunk bsize i msk')) [0..<n],
                    reverse_indices)
           | Some (image_features, image_paths) \<Rightarrow>
             (case index_rows image_paths indices of
                Inl e \<Rightarrow> Inl e
              | Inr paths' \<Rightarrow>
              (case image_features of
                 None \<Rightarrow>
                   Inr (map (\<lambda>i. MultiBatch (chunk bsize i ids') (chunk bsize i msk') None
                                   (chunk bsize i paths')) [0..<n],
                        reverse_indices)
               | Some f \<Rightarrow>
                 (case index_rows f indices of
                    Inl e \<Rightarrow> Inl e
                  | Inr f' \<Rightarrow>
                      Inr (map (\<lambda>i. MultiBatch (chunk bsize i ids') (chunk bsize i msk')
                                      (Some (chunk bsize i f')) (chunk bsize i paths')) [0..<n],
                           reverse_indices)))))))"

text \<open>
  The body of the loop over the batches. \<open>load_image\<close> opens one image path and
  preprocesses it to its pixel tensor (\<^verbatim>\<open>Image.open\<close> and the image processor).
\<close>

definition encode_batch ::
  "(('a::semiring_1), 'px) flmr \<Rightarrow> ('p option \<Rightarrow> error + 'px) \<Rightarrow> keep_dims \<Rightarrow> bool \<Rightarrow> bool \<Rightarrow>
   ('a, 'p) batch \<Rightarrow> error + 'a FLMRContextEncoderOutput" where
  "encode_batch m load_image keep_dims' return_mask to_cpu b =
     (case b of
        TextBatch input_ids attention_mask \<Rightarrow>
          indexing_doc m (Some input_ids) (Some attention_mask) None None keep_dims' return_mask to_cpu
      | MultiBatch input_ids attention_mask (Some image_features) image_paths \<Rightarrow>
          indexing_doc m (Some input_ids) (Some attention_mask) None (Some image_features)
            keep_dims' return_mask to_cpu
      | MultiBatch input_ids attention_mask None image_paths \<Rightarrow>
          (case for_each load_image image_paths of
             Inl e \<Rightarrow> Inl e
           | Inr pixel_values \<Rightarrow>
               indexing_doc m (Some input_ids) (Some attention_mask) (Some pixel_values) None
                 keep_dims' return_mask to_cpu))"

text \<open>
  \<^verbatim>\<open>_stack_3D_tensors(groups)\<close> on Python objects: it reads \<^verbatim>\<open>x.size(0)\<close> of every
  group first, which a tuple does not have; \<^verbatim>\<open>max\<close> raises on an empty list. On
  tensors it pads every document with zero rows to the greatest length and stacks them.
  The slice assignment \<^verbatim>\<open>output[offset:endpos, :x.size(1)] = x\<close> broadcasts: a group
  whose last axis has size 1 fills the \<open>hdim\<close> columns of the output with its one column,
  and any other size than \<open>hdim\<close> and 1 raises. (A nested list keeps no size for the axes
  below an empty one: a group with no row is taken to fit.)
\<close>

datatype ('a, 'p) pyobj = Tensor "'a tensor3" | Tuple "('a, 'p) batch"

fun tensors_of :: "('a, 'p) pyobj list \<Rightarrow> error + 'a tensor3 list" where
  "tensors_of [] = Inr []"
| "tensors_of (Tuple b # xs) = Inl AttributeError"
| "tensors_of (Tensor t # xs) =
     (case tensors_of xs of Inl e \<Rightarrow> Inl e | Inr ts \<Rightarrow> Inr (t # ts))"

definition size2 :: "'b list list list \<Rightarrow> nat" where
  "size2 t = (case t of (r # _) # _ \<Rightarrow> length r | _ \<Rightarrow> 0)"

definition broadcast_row :: "nat \<Rightarrow> 'b list \<Rightarrow> 'b list" where
  "broadcast_row hdim r = (if length r = hdim then r else replicate hdim (hd r))"

definition stack_3D_tensors :: "(('a::zero), 'p) pyobj list \<Rightarrow> error + 'a tensor3" where
  "stack_3D_tensors groups =
     (case tensors_of groups of
        Inl e \<Rightarrow> Inl e
      | Inr [] \<Rightarrow> Inl ValueError
      | Inr (g # gs) \<Rightarrow>
          (let maxlen = Max (set (map size1 (g # gs)));
               hdim = size2 g
           in if list_all (\<lambda>x. list_all (\<lambda>d. list_all (\<lambda>r. length r = hdim \<or> length r = 1) d) x)
                   (g # gs)
              then Inr (concat (map (map (\<lambda>d. map (broadcast_row hdim) d @
                                               replicate (maxlen - length d) (replicate hdim 0)))
                                  (g # gs)))
              else Inl RuntimeError))"

text \<open>The elements of a batch tuple, for the comprehension
  \<^verbatim>\<open>[d for batch in batches for d in batch]\<close> of the ragged mode.\<close>

datatype ('a, 'p) item =
    TokenTensor "nat tensor2"
  | FeatureTensor "'a tensor2 option"
  | PathList "'p option list"

fun batch_items :: "('a, 'p) batch \<Rightarrow> ('a, 'p) item list" where
  "batch_items (TextBatch ids msk) = [TokenTensor ids, TokenTensor msk]"
| "batch_items (MultiBatch ids msk f p) =
     [TokenTensor ids, TokenTensor msk, FeatureTensor f, PathList p]"

text \<open>\<^verbatim>\<open>returned_text\<close>: with \<^verbatim>\<open>return_tokens\<close> every batch is unpacked into four
  names, and the token ids come back in the original order.\<close>

fun batch_ids :: "('a, 'p) batch list \<Rightarrow> error + nat tensor2" where
  "batch_ids [] = Inr []"
| "batch_ids (TextBatch ids msk # bs) = Inl ValueError"
| "batch_ids (MultiBatch ids msk f p # bs) =
     (case batch_ids bs of Inl e \<Rightarrow> Inl e | Inr rest \<Rightarrow> Inr (ids @ rest))"

definition returned_tokens ::
  "bool \<Rightarrow> ('a, 'p) batch list \<Rightarrow> nat list \<Rightarrow> error + nat tensor2 list" where
  "returned_tokens return_tokens batches reverse_indices =
     (if return_tokens
      then (case batch_ids batches of
              Inl e \<Rightarrow> Inl e
            | Inr returned_text \<Rightarrow>
                (case index_rows returned_text reverse_indices of
                   Inl e \<Rightarrow> Inl e
                 | Inr r \<Rightarrow> Inr [r]))
      else Inr [])"

text \<open>The flattened mode of \<^verbatim>\<open>docFromText\<close>, on the encoded batches: \<open>e_dim\<close> is
  \<^verbatim>\<open>self.config.dim\<close>. A batch without a mask cannot be concatenated.\<close>

fun masks_of :: "'a FLMRContextEncoderOutput list \<Rightarrow> error + bool tensor2 list" where
  "masks_of [] = Inr []"
| "masks_of (b # bs) =
     (case context_mask b of
        None \<Rightarrow> Inl TypeError
      | Some mk \<Rightarrow> (case masks_of bs of Inl e \<Rightarrow> Inl e | Inr ms \<Rightarrow> Inr (mk # ms)))"

definition flatten_batches ::
  "nat \<Rightarrow> 'a FLMRContextEncoderOutput list \<Rightarrow> nat list \<Rightarrow> error + 'a tensor2 \<times> nat list" where
  "flatten_batches e_dim encoded_batches reverse_indices =
     (case cat_dim0 (map late_interaction_output encoded_batches) of
        Inl e \<Rightarrow> Inl e
      | Inr D_cat \<Rightarrow>
      (case index_rows D_cat reverse_indices of
         Inl e \<Rightarrow> Inl e
       | Inr D \<Rightarrow>
       (case masks_of encoded_batches of
          Inl e \<Rightarrow> Inl e
        | Inr ms \<Rightarrow>
        (case cat_dim0 ms of
           Inl e \<Rightarrow> Inl e
         | Inr mask_cat \<Rightarrow>
         (case index_rows mask_cat reverse_indices of
            Inl e \<Rightarrow> Inl e
          | Inr msk \<Rightarrow>
            (let doclens = map (\<lambda>r. length (filter (\<lambda>b. b) r)) msk
             in case view_rows D e_dim of
                  Inl e \<Rightarrow> Inl e
                | Inr D' \<Rightarrow>
                    (case boolean_index D' (concat msk) of
                       Inl e \<Rightarrow> Inl e
                     | Inr D'' \<Rightarrow> Inr (D'', doclens))))))))"

text \<open>What \<^verbatim>\<open>docFromText\<close> returns: the dense tensor, the flattened pair, the ragged
  list (each with the returned tokens), or the output of a single \<^verbatim>\<open>doc\<close> call.\<close>

datatype ('a, 'p) encoded =
    Dense "'a tensor3" "nat tensor2 list"
  | Flattened "'a tensor2" "nat list" "nat tensor2 list"
  | Ragged "('a, 'p) item list" "nat tensor2 list"
  | Single "'a FLMRContextEncoderOutput"

text \<open>
  \<^verbatim>\<open>FLMRModelForIndexing.docFromText\<close>. \<open>context_tokenizer\<close> gives the token ids and
  the attention mask of the texts. The dense mode stacks \<^verbatim>\<open>batches\<close>, the list of the
  input tuples, and the ragged mode reads the same list; the encoded batches are used by
  the flattened mode only.
\<close>

definition docFromText ::
  "(('a::semiring_1), 'px) flmr \<Rightarrow> (string list \<Rightarrow> nat tensor2 \<times> nat tensor2) \<Rightarrow>
   ('p option \<Rightarrow> error + 'px) \<Rightarrow> ('a, 'p) docs \<Rightarrow> nat option \<Rightarrow> keep_dims \<Rightarrow> bool \<Rightarrow> bool \<Rightarrow>
   error + ('a, 'p) encoded" where
  "docFromText m context_tokenizer load_image docs bsize keep_dims to_cpu return_tokens =
     (if keep_dims = Keep_return_mask then Inl AssertionError
      else case unpack_docs docs of
        Inl e \<Rightarrow> Inl e
      | Inr (texts, images) \<Rightarrow>
          (let (ids, msk) = context_tokenizer texts in
           if bsize \<noteq> None \<and> bsize \<noteq> Some 0
           then
             (case sort_and_split ids msk images (case bsize of None \<Rightarrow> 0 | Some b \<Rightarrow> b) of
                Inl e \<Rightarrow> Inl e
              | Inr (batches, reverse_indices) \<Rightarrow>
              (case returned_tokens return_tokens batches reverse_indices of
                 Inl e \<Rightarrow> Inl e
               | Inr returned_text \<Rightarrow>
                 (let keep_dims' = (if keep_dims = Keep_flatten then Keep_return_mask else keep_dims);
                      return_mask = (keep_dims = Keep_flatten)
                  in case for_each (encode_batch m load_image keep_dims' return_mask to_cpu) batches of
                       Inl e \<Rightarrow> Inl e
                     | Inr encoded_batches \<Rightarrow>
                         if keep_dims = Keep_True
                         then (case stack_3D_tensors (map Tuple batches) of
                                 Inl e \<Rightarrow> Inl e
                               | Inr D \<Rightarrow>
                                   (case index_rows D reverse_indices of
                                      Inl e \<Rightarrow> Inl e
                                    | Inr D' \<Rightarrow> Inr (Dense D' returned_text)))
                         else if keep_dims = Keep_flatten
                         then (case flatten_batches (text_encoder_embedding_size m) encoded_batches
                                      reverse_indices of
                                 Inl e \<Rightarrow> Inl e
                               | Inr (D, doclens) \<Rightarrow> Inr (Flattened D doclens returned_text))
                         else (case index_rows (concat (map batch_items batches)) reverse_indices of
                                 Inl e \<Rightarrow> Inl e
                               | Inr D \<Rightarrow> Inr (Ragged D returned_text)))))
           else
             (case indexing_doc m (Some ids) (Some msk) None None keep_dims True to_cpu of
                Inl e \<Rightarrow> Inl e
              | Inr out \<Rightarrow> Inr (Single out))))"

text \<open>The row of the mask that \<open>doc\<close> returns for a document with the token ids \<open>row\<close>,
  under the model's document-side concatenation flags and skiplist \<open>sl\<close>.\<close>

definition context_mask_row :: "('a, 'px) flmr \<Rightarrow> nat list \<Rightarrow> nat list \<Rightarrow> bool list" where
  "context_mask_row m sl row =
     (let keep = map (\<lambda>x. x \<notin> set sl \<and> x \<noteq> 0) row;
          ones = replicate (mapping_network_prefix_length m) True
      in if context_concat_output_from_vision_encoder m \<and> context_concat_output_from_text_encoder m
         then keep @ ones
         else if context_concat_output_from_vision_encoder m then ones
         else keep)"

text \<open>A tokenizer for concrete runs: one token per character, its code point, padded
  with zeros to the longest text; the attention mask marks the characters.\<close>

definition example_tokenizer :: "string list \<Rightarrow> nat tensor2 \<times> nat tensor2" where
  "example_tokenizer texts =
     (let n = Max (set (0 # map length texts))
      in (map (\<lambda>t. map of_char t @ replicate (n - length t) 0) texts,
          map (\<lambda>t. replicate (length t) 1 @ replicate (n - length t) 0) texts))"


text \<open>The token ids of a batch tuple, and whether its parallel arrays have one entry per
  document.\<close>

fun ids_of_batch :: "('a, 'p) batch \<Rightarrow> nat tensor2" where
  "ids_of_batch (TextBatch ids msk) = ids"
| "ids_of_batch (MultiBatch ids msk f p) = ids"

fun aligned :: "('a, 'p) batch \<Rightarrow> bool" where
  "aligned (TextBatch ids msk) = True"
| "aligned (MultiBatch ids msk None p) = (length p = length ids)"
| "aligned (MultiBatch ids msk (Some f) p) = (length p = length ids \<and> length f = length ids)"


section \<open>Properties of the tensor operations\<close>

text \<open>The images under a conditional stay as they are written.\<close>

declare if_image_distrib [simp del]

lemma chunks_concat:
  "list_all (\<lambda>m. length m = c) t \<Longrightarrow>
   map (\<lambda>i. take c (drop (i * c) (concat t))) [0..<length t] = t"
proof (induction t)
  case Nil
  then show ?case by simp
next
  case (Cons m t)
  have len: "length m = c" using Cons.prems by simp
  have rest: "list_all (\<lambda>m. length m = c) t" using Cons.prems by simp
  have "[0..<length (m # t)] = 0 # map Suc [0..<length t]"
    by (simp add: upt_conv_Cons map_Suc_upt del: upt_Suc)
  then have "map (\<lambda>i. take c (drop (i * c) (concat (m # t)))) [0..<length (m # t)]
      = take c (m @ concat t) # map (\<lambda>i. take c (drop (Suc i * c) (m @ concat t))) [0..<length t]"
    by (simp add: comp_def)
  also have "take c (m @ concat t) = m" using len by simp
  also have "map (\<lambda>i. take c (drop (Suc i * c) (m @ concat t))) [0..<length t]
      = map (\<lambda>i. take c (drop (i * c) (concat t))) [0..<length t]"
    using len by (simp add: add.commute)
  also have "\<dots> = t" using Cons.IH [OF rest] .
  finally show ?case .
qed

lemma map_upt_eq:
  "length xs = n \<Longrightarrow> (\<And>i. i < n \<Longrightarrow> xs ! i = f i) \<Longrightarrow> xs = map f [0..<n]"
  by (rule nth_equalityI) simp_all

lemma length_concat_rect:
  "list_all (\<lambda>m. length m = c) t \<Longrightarrow> length (concat t) = length t * c"
  by (induction t) simp_all

lemma view2_rect:
  "length t = r \<Longrightarrow> list_all (\<lambda>m. length m = c) t \<Longrightarrow> view2 t r c = Inr t"
  using chunks_concat [of c t] length_concat_rect [of c t]
  by (simp add: view2_def Let_def)

lemma foldl_max_rows:
  fixes acc :: "('a::linorder) list"
  shows "list_all (\<lambda>r. length r = q) rows \<Longrightarrow> length acc = q \<Longrightarrow>
    length (foldl (\<lambda>acc row. map (\<lambda>(a, b). max a b) (zip acc row)) acc rows) = q \<and>
    (\<forall>j<q. foldl (\<lambda>acc row. map (\<lambda>(a, b). max a b) (zip acc row)) acc rows ! j
        = Max (insert (acc ! j) ((\<lambda>r. r ! j) ` set rows)))"
proof (induction rows arbitrary: acc)
  case Nil
  then show ?case by simp
next
  case (Cons r rows)
  let ?f = "\<lambda>acc row. map (\<lambda>(a, b). max a b) (zip acc row)"
  have lr: "length r = q" and rest: "list_all (\<lambda>r. length r = q) rows"
    using Cons.prems by simp_all
  have la: "length (?f acc r) = q" using lr Cons.prems(2) by simp
  have IH: "length (foldl ?f (?f acc r) rows) = q \<and>
    (\<forall>j<q. foldl ?f (?f acc r) rows ! j = Max (insert (?f acc r ! j) ((\<lambda>r. r ! j) ` set rows)))"
    using Cons.IH [OF rest la] .
  show ?case
  proof (intro conjI allI impI)
    show "length (foldl ?f acc (r # rows)) = q" using IH by simp
  next
    fix j assume j: "j < q"
    have "?f acc r ! j = max (acc ! j) (r ! j)" using j lr Cons.prems(2) by simp
    then have "foldl ?f acc (r # rows) ! j
        = Max (insert (max (acc ! j) (r ! j)) ((\<lambda>r. r ! j) ` set rows))"
      using IH j by simp
    also have "\<dots> = Max (insert (acc ! j) ((\<lambda>r. r ! j) ` set (r # rows)))"
    proof -
      have fin: "finite ((\<lambda>r. r ! j) ` set rows)" by simp
      show ?thesis
      proof (cases "set rows = {}")
        case True
        then show ?thesis by (simp add: max.commute)
      next
        case False
        then have ne: "(\<lambda>r. r ! j) ` set rows \<noteq> {}" by simp
        show ?thesis
          using fin ne by (simp add: max.assoc)
      qed
    qed
    finally show "foldl ?f acc (r # rows) ! j = Max (insert (acc ! j) ((\<lambda>r. r ! j) ` set (r # rows)))" .
  qed
qed

lemma max_rows_nth:
  fixes doc :: "('a::linorder) tensor2"
  assumes "doc \<noteq> []" and "list_all (\<lambda>r. length r = q) doc"
  shows "length (max_rows doc) = q"
    and "j < q \<Longrightarrow> max_rows doc ! j = Max ((\<lambda>i. doc ! i ! j) ` {..<length doc})"
proof -
  obtain r rows where doc: "doc = r # rows" using assms(1) by (cases doc) auto
  have lr: "length r = q" and rest: "list_all (\<lambda>r. length r = q) rows"
    using assms(2) doc by simp_all
  note F = foldl_max_rows [OF rest lr]
  show "length (max_rows doc) = q" using F by (simp add: max_rows_def doc)
  have img: "(\<lambda>i. doc ! i ! j) ` {..<length doc} = (\<lambda>r. r ! j) ` set doc"
    by (auto simp: set_conv_nth image_iff) 
  show "max_rows doc ! j = Max ((\<lambda>i. doc ! i ! j) ` {..<length doc})" if j: "j < q"
  proof -
    have "max_rows doc ! j = Max (insert (r ! j) ((\<lambda>r. r ! j) ` set rows))"
      using F j by (simp add: max_rows_def doc)
    also have "insert (r ! j) ((\<lambda>r. r ! j) ` set rows) = (\<lambda>r. r ! j) ` set doc"
      by (simp add: doc)
    also have "\<dots> = (\<lambda>i. doc ! i ! j) ` {..<length doc}"
      using img by simp
    finally show ?thesis .
  qed
qed


lemma shape2_nth: "shape2 t a b \<Longrightarrow> i < a \<Longrightarrow> length (t ! i) = b"
  by (simp add: shape2_def list_all_length)

lemma shape3_nth: "shape3 t a b c \<Longrightarrow> n < a \<Longrightarrow> shape2 (t ! n) b c"
  by (simp add: shape3_def list_all_length)

lemma shape3_nth_nth: "shape3 t a b c \<Longrightarrow> n < a \<Longrightarrow> i < b \<Longrightarrow> length (t ! n ! i) = c"
  using shape3_nth [of t a b c n] shape2_nth [of "t ! n" b c i] by simp

lemma dot_sum:
  fixes u v :: "('a::semiring_0) list"
  shows "length u = e_dim \<Longrightarrow> length v = e_dim \<Longrightarrow> dot u v = (\<Sum>k<e_dim. u ! k * v ! k)"
proof -
  assume u: "length u = e_dim" and v: "length v = e_dim"
  have "dot u v = (\<Sum>k<length (zip u v). (map (\<lambda>(x, y). x * y) (zip u v)) ! k)"
    unfolding dot_def by (simp add: sum_list_sum_nth atLeast0LessThan)
  also have "\<dots> = (\<Sum>k<e_dim. u ! k * v ! k)"
    using u v by simp
  finally show ?thesis .
qed

lemma matmul_T_shape:
  shows "length (matmul_T ar d q) = length d"
    and "i < length d \<Longrightarrow> length (matmul_T ar d q ! i) = length q"
    and "i < length d \<Longrightarrow> j < length q \<Longrightarrow> matmul_T ar d q ! i ! j = inner ar (d ! i) (q ! j)"
  by (simp_all add: matmul_T_def)

lemma same_dim_shape:
  "shape3 D N d_len e_dim \<Longrightarrow> shape3 Q N_q q_len e_dim \<Longrightarrow> same_dim D Q"
  by (auto simp: same_dim_def shape3_def shape2_def list_all_iff)

lemma shape3_map:
  assumes T: "shape3 T a b c"
  shows "shape3 (map (map (map f)) T) a b c"
    and "n < a \<Longrightarrow> i < b \<Longrightarrow> map (map (map f)) T ! n ! i = map f (T ! n ! i)"
proof -
  show "shape3 (map (map (map f)) T) a b c"
    using T by (simp add: shape3_def shape2_def list_all_iff)
  show "map (map (map f)) T ! n ! i = map f (T ! n ! i)" if n: "n < a" and i: "i < b"
  proof -
    have "length T = a" using T by (simp add: shape3_def)
    moreover have "length (T ! n) = b" using shape3_nth [OF T n] by (simp add: shape2_def)
    ultimately show ?thesis using n i by simp
  qed
qed

lemma matmul_permute_shape:
  assumes D: "shape3 D N d_len e_dim" and Q: "shape3 Q N_q q_len e_dim"
    and NQ: "N_q = 1 \<or> N_q = N"
  shows "matmul_permute ar D Q =
    Inr (map (\<lambda>n. matmul_T ar (D ! n) (Q ! (if N_q = 1 then 0 else n))) [0..<N])"
proof -
  have lD: "length D = N" and lQ: "length Q = N_q" using D Q by (simp_all add: shape3_def)
  have sd: "same_dim D Q" using same_dim_shape [OF D Q] .
  show ?thesis
  proof (cases "N_q = 1")
    case True
    then have "hd Q = Q ! 0" using lQ by (cases Q) simp_all
    moreover have "map (\<lambda>d. matmul_T ar d (Q ! 0)) D = map (\<lambda>n. matmul_T ar (D ! n) (Q ! 0)) [0..<N]"
      using lD by (intro nth_equalityI) simp_all
    ultimately show ?thesis using True sd lQ by (simp add: matmul_permute_def)
  next
    case False
    then have eq: "N_q = N" using NQ by simp
    have "map (\<lambda>(d, q). matmul_T ar d q) (zip D Q) = map (\<lambda>n. matmul_T ar (D ! n) (Q ! n)) [0..<N]"
      using lD lQ eq by (intro nth_equalityI) simp_all
    then show ?thesis using False sd lQ lD eq by (simp add: matmul_permute_def)
  qed
qed

lemma masked_assign_nth:
  assumes "length padding = length t" and "n < length t"
    and "length (padding ! n) = length (t ! n)" and "i < length (t ! n)"
  shows "masked_assign t padding v ! n ! i =
    (if padding ! n ! i then map (\<lambda>_. v) (t ! n ! i) else t ! n ! i)"
  using assms by (simp add: masked_assign_def)

lemma masked_assign_length:
  "length padding = length t \<Longrightarrow> length (masked_assign t padding v) = length t"
  "length padding = length t \<Longrightarrow> n < length t \<Longrightarrow> length (padding ! n) = length (t ! n) \<Longrightarrow>
     length (masked_assign t padding v ! n) = length (t ! n)"
  by (simp_all add: masked_assign_def)


lemma view2_shape2:
  assumes S: "shape3 S N d_len q_len" and M: "shape2 M N d_len"
  shows "view2 M (size0 S) (size1 S) = Inr M"
proof (cases S)
  case Nil
  then have "N = 0" using S by (simp add: shape3_def)
  then have "M = []" using M by (simp add: shape2_def)
  then show ?thesis using Nil by (simp add: view2_def size0_def size1_def)
next
  case (Cons d S')
  then have "size1 S = d_len" "size0 S = N"
    using S by (simp_all add: shape3_def shape2_def size1_def size0_def)
  then show ?thesis using M view2_rect [of M N d_len] by (simp add: shape2_def)
qed

lemma masked_rows:
  assumes S: "shape3 S N d_len q_len" and M: "shape2 M N d_len" and n: "n < N"
  shows "length (masked_assign S (map (map Not) M) v ! n) = d_len"
    and "i < d_len \<Longrightarrow> length (masked_assign S (map (map Not) M) v ! n ! i) = q_len"
    and "i < d_len \<Longrightarrow> j < q_len \<Longrightarrow>
         masked_assign S (map (map Not) M) v ! n ! i ! j = (if M ! n ! i then S ! n ! i ! j else v)"
proof -
  have lS: "length S = N" and lM: "length M = N" using S M by (simp_all add: shape3_def shape2_def)
  have lSn: "length (S ! n) = d_len" using shape3_nth [OF S n] by (simp add: shape2_def)
  have lMn: "length (M ! n) = d_len" using shape2_nth [OF M n] .
  have lp: "length (map (map Not) M) = length S" using lS lM by simp
  have lpn: "length (map (map Not) M ! n) = length (S ! n)" using lSn lMn lM n by simp
  show "length (masked_assign S (map (map Not) M) v ! n) = d_len"
    using masked_assign_length(2) [OF lp, of n v] lpn lS n lSn by simp
  have row: "masked_assign S (map (map Not) M) v ! n ! i =
      (if M ! n ! i then S ! n ! i else map (\<lambda>_. v) (S ! n ! i))" if i: "i < d_len" for i
    using masked_assign_nth [OF lp, of n i v] lpn lS n lSn lMn lM i by simp
  have lSni: "length (S ! n ! i) = q_len" if i: "i < d_len" for i
    using shape3_nth_nth [OF S n i] .
  show "i < d_len \<Longrightarrow> length (masked_assign S (map (map Not) M) v ! n ! i) = q_len"
    using row lSni by simp
  show "i < d_len \<Longrightarrow> j < q_len \<Longrightarrow>
         masked_assign S (map (map Not) M) v ! n ! i ! j = (if M ! n ! i then S ! n ! i ! j else v)"
    using row lSni by simp
qed

text \<open>What \<open>colbert_score_reduce\<close> leaves in the tensor and returns, on a similarity tensor
  and a mask of matching shapes, in the arithmetic \<open>ar\<close> of the tensor's dtype.\<close>

lemma colbert_score_reduce_shape:
  fixes S :: "('a::linorder) tensor3"
  assumes S: "shape3 S N d_len q_len" and M: "shape2 M N d_len" and pos: "0 < d_len"
  shows "colbert_score_reduce ar S M =
    (masked_assign S (map (map Not) M) (scalar ar (- 9999)),
     Inr (map (\<lambda>n. reduce_sum ar
                 (map (\<lambda>j. Max ((\<lambda>i. if M ! n ! i then S ! n ! i ! j else scalar ar (- 9999)) ` {..<d_len}))
                    [0..<q_len]))
            [0..<N]))"
proof -
  let ?v = "scalar ar (- 9999)"
  let ?S' = "masked_assign S (map (map Not) M) ?v"
  have lS: "length S = N" and lM: "length M = N" using S M by (simp_all add: shape3_def shape2_def)
  have lS': "length ?S' = N" using masked_assign_length(1) [of "map (map Not) M" S] lS lM by simp
  have nonempty: "\<not> list_ex (\<lambda>doc. doc = []) ?S'"
  proof
    assume "list_ex (\<lambda>doc. doc = []) ?S'"
    then obtain n where n: "n < N" and e: "?S' ! n = []"
      using lS' by (auto simp: list_ex_iff in_set_conv_nth)
    then show False using masked_rows(1) [OF S M n, of ?v] pos by simp
  qed
  have maxs: "max_rows (?S' ! n) =
      map (\<lambda>j. Max ((\<lambda>i. if M ! n ! i then S ! n ! i ! j else ?v) ` {..<d_len})) [0..<q_len]"
    if n: "n < N" for n
  proof (rule map_upt_eq)
    have ne: "?S' ! n \<noteq> []" using masked_rows(1) [OF S M n, of ?v] pos by auto
    have len: "length (?S' ! n) = d_len" using masked_rows(1) [OF S M n] .
    have rows: "list_all (\<lambda>r. length r = q_len) (?S' ! n)"
      using masked_rows(2) [OF S M n] len by (simp add: list_all_length)
    show "length (max_rows (?S' ! n)) = q_len"
      using max_rows_nth(1) [OF ne rows] .
    fix j assume j: "j < q_len"
    have "max_rows (?S' ! n) ! j = Max ((\<lambda>i. ?S' ! n ! i ! j) ` {..<d_len})"
      using max_rows_nth(2) [OF ne rows j] len by simp
    also have "(\<lambda>i. ?S' ! n ! i ! j) ` {..<d_len}
        = (\<lambda>i. if M ! n ! i then S ! n ! i ! j else ?v) ` {..<d_len}"
      using masked_rows(3) [OF S M n _ j, of _ ?v] by (intro image_cong) simp_all
    finally show "max_rows (?S' ! n) ! j =
        Max ((\<lambda>i. if M ! n ! i then S ! n ! i ! j else ?v) ` {..<d_len})" .
  qed
  have "sum_last ar (map max_rows ?S') =
      map (\<lambda>n. reduce_sum ar
             (map (\<lambda>j. Max ((\<lambda>i. if M ! n ! i then S ! n ! i ! j else ?v) ` {..<d_len})) [0..<q_len]))
        [0..<N]"
  proof (rule map_upt_eq)
    show "length (sum_last ar (map max_rows ?S')) = N" using lS' by (simp add: sum_last_def)
    fix n assume n: "n < N"
    have "sum_last ar (map max_rows ?S') ! n = reduce_sum ar (max_rows (?S' ! n))"
      using n lS' by (simp add: sum_last_def)
    then show "sum_last ar (map max_rows ?S') ! n =
        reduce_sum ar
          (map (\<lambda>j. Max ((\<lambda>i. if M ! n ! i then S ! n ! i ! j else ?v) ` {..<d_len})) [0..<q_len])"
      by (simp only: maxs [OF n])
  qed
  then show ?thesis
    using view2_shape2 [OF S M] nonempty
    by (simp add: colbert_score_reduce_def max_dim1_def Let_def)
qed

text \<open>In arithmetic without rounding the sum of a row is the sum of its entries.\<close>

lemma reduce_sum_exact:
  "reduce_sum exact_dtype (map f [0..<n]) = (\<Sum>j<n. f j)"
  by (simp add: exact_dtype_def sum_list_sum_nth atLeast0LessThan)

lemma inner_exact:
  "length u = e_dim \<Longrightarrow> length v = e_dim \<Longrightarrow> inner exact_dtype u v = (\<Sum>k<e_dim. u ! k * v ! k)"
  using dot_sum [of u e_dim v] by (simp add: exact_dtype_def)

lemma scalar_exact: "scalar exact_dtype i = of_int i"
  by (simp add: exact_dtype_def)


section \<open>Claims about the scorer\<close>

text \<open>The value of \<open>colbert_score\<close> on tensors of matching shapes, in the arithmetic \<open>ar\<close>
  of the device that the call computes on.\<close>

lemma colbert_score_value:
  fixes D :: "('a::linorder) tensor3"
  assumes Q: "shape3 Q N_q q_len e_dim" and D: "shape3 D N d_len e_dim"
    and M: "shape2 M N d_len" and NQ: "N_q = 1 \<or> N_q = N" and pos: "0 < d_len"
    and dev: "(if gpu then cuda else Inr device) = Inr ar"
  shows "colbert_score cuda device to_dtype Q D M gpu =
    Inr (map (\<lambda>n. reduce_sum ar (map (\<lambda>j. Max ((\<lambda>i.
                 if M ! n ! i
                 then inner ar (D ! n ! i) (map to_dtype (Q ! (if N_q = 1 then 0 else n) ! j))
                 else scalar ar (- 9999)) ` {..<d_len})) [0..<q_len]))
           [0..<N])"
proof -
  let ?Q = "map (map (map to_dtype)) Q"
  let ?m = "\<lambda>n. if N_q = 1 then 0 else n"
  let ?S = "map (\<lambda>n. matmul_T ar (D ! n) (?Q ! ?m n)) [0..<N]"
  have Q': "shape3 ?Q N_q q_len e_dim" using shape3_map(1) [OF Q] .
  have lD: "length D = N" and lQ: "length Q = N_q" using D Q by (simp_all add: shape3_def)
  have qi: "?m n < N_q" if "n < N" for n using NQ that by auto
  have Dn: "shape2 (D ! n) d_len e_dim" if "n < N" for n using shape3_nth [OF D that] .
  have Qn: "shape2 (?Q ! ?m n) q_len e_dim" if "n < N" for n using shape3_nth [OF Q' qi [OF that]] .
  have mm: "matmul_permute ar D ?Q = Inr ?S" using matmul_permute_shape [OF D Q' NQ] .
  have S: "shape3 ?S N d_len q_len"
    unfolding shape3_def shape2_def
    using Dn Qn by (auto simp: list_all_length shape2_def matmul_T_shape)
  have entry: "?S ! n ! i ! j = inner ar (D ! n ! i) (map to_dtype (Q ! ?m n ! j))"
    if n: "n < N" and i: "i < d_len" and j: "j < q_len" for n i j
  proof -
    have li: "i < length (D ! n)" and lj: "j < length (?Q ! ?m n)"
      using Dn [OF n] Qn [OF n] i j by (simp_all add: shape2_def)
    have Sn: "?S ! n = matmul_T ar (D ! n) (?Q ! ?m n)" using n by simp
    have "?S ! n ! i ! j = inner ar (D ! n ! i) (?Q ! ?m n ! j)"
      unfolding Sn using matmul_T_shape(3) [OF li lj] .
    also have "?Q ! ?m n ! j = map to_dtype (Q ! ?m n ! j)"
      using shape3_map(2) [OF Q qi [OF n] j] .
    finally show ?thesis .
  qed
  have "map (\<lambda>n. reduce_sum ar (map (\<lambda>j. Max ((\<lambda>i.
            if M ! n ! i then ?S ! n ! i ! j else scalar ar (- 9999)) ` {..<d_len})) [0..<q_len])) [0..<N]
      = map (\<lambda>n. reduce_sum ar (map (\<lambda>j. Max ((\<lambda>i.
            if M ! n ! i then inner ar (D ! n ! i) (map to_dtype (Q ! ?m n ! j))
            else scalar ar (- 9999)) ` {..<d_len})) [0..<q_len])) [0..<N]"
  proof (rule map_cong [OF refl])
    fix n assume "n \<in> set [0..<N]"
    then have n: "n < N" by simp
    have "map (\<lambda>j. Max ((\<lambda>i. if M ! n ! i then ?S ! n ! i ! j else scalar ar (- 9999)) ` {..<d_len}))
            [0..<q_len]
        = map (\<lambda>j. Max ((\<lambda>i. if M ! n ! i then inner ar (D ! n ! i) (map to_dtype (Q ! ?m n ! j))
            else scalar ar (- 9999)) ` {..<d_len})) [0..<q_len]"
    proof (rule map_cong [OF refl])
      fix j assume "j \<in> set [0..<q_len]"
      then have j: "j < q_len" by simp
      have "(\<lambda>i. if M ! n ! i then ?S ! n ! i ! j else scalar ar (- 9999)) ` {..<d_len}
          = (\<lambda>i. if M ! n ! i then inner ar (D ! n ! i) (map to_dtype (Q ! ?m n ! j))
               else scalar ar (- 9999)) ` {..<d_len}"
        using entry [OF n _ j] by (intro image_cong) simp_all
      then show "Max ((\<lambda>i. if M ! n ! i then ?S ! n ! i ! j else scalar ar (- 9999)) ` {..<d_len})
          = Max ((\<lambda>i. if M ! n ! i then inner ar (D ! n ! i) (map to_dtype (Q ! ?m n ! j))
               else scalar ar (- 9999)) ` {..<d_len})"
        by simp
    qed
    then show "reduce_sum ar (map (\<lambda>j. Max ((\<lambda>i.
            if M ! n ! i then ?S ! n ! i ! j else scalar ar (- 9999)) ` {..<d_len})) [0..<q_len])
      = reduce_sum ar (map (\<lambda>j. Max ((\<lambda>i.
            if M ! n ! i then inner ar (D ! n ! i) (map to_dtype (Q ! ?m n ! j))
            else scalar ar (- 9999)) ` {..<d_len})) [0..<q_len])"
      by (rule arg_cong)
  qed
  moreover have "snd (colbert_score_reduce ar ?S M) =
      Inr (map (\<lambda>n. reduce_sum ar (map (\<lambda>j. Max ((\<lambda>i.
            if M ! n ! i then ?S ! n ! i ! j else scalar ar (- 9999)) ` {..<d_len})) [0..<q_len])) [0..<N])"
    by (simp only: colbert_score_reduce_shape [OF S M pos, of ar] snd_conv)
  moreover have "colbert_score cuda device to_dtype Q D M gpu = snd (colbert_score_reduce ar ?S M)"
    using NQ lD lQ by (simp only: colbert_score_def dev mm sum.case) auto
  ultimately show ?thesis by (simp only:)
qed

text \<open>
  In arithmetic without rounding, with a query of the documents' dtype, this is the sum
  over the query tokens of the greatest dot product, with \<open>-9999\<close> at the masked positions.
\<close>

lemma colbert_score_exact:
  fixes Q D :: "('a::linordered_idom) tensor3"
  assumes Q: "shape3 Q N_q q_len e_dim" and D: "shape3 D N d_len e_dim"
    and M: "shape2 M N d_len" and NQ: "N_q = 1 \<or> N_q = N" and pos: "0 < d_len"
  shows "colbert_score (Inr exact_dtype) exact_dtype (\<lambda>x. x) Q D M gpu =
    Inr (map (\<lambda>n. \<Sum>j<q_len. Max ((\<lambda>i.
                 if M ! n ! i
                 then (\<Sum>k<e_dim. D ! n ! i ! k * Q ! (if N_q = 1 then 0 else n) ! j ! k)
                 else - 9999) ` {..<d_len}))
           [0..<N])"
proof -
  let ?m = "\<lambda>n. if N_q = 1 then 0 else n"
  have dev: "(if gpu then Inr exact_dtype else Inr exact_dtype) = Inr (exact_dtype :: 'a dtype)"
    by simp
  have qi: "?m n < N_q" if "n < N" for n using NQ that by auto
  have "(\<Sum>j<q_len. Max ((\<lambda>i. if M ! n ! i
            then inner exact_dtype (D ! n ! i) (map (\<lambda>x. x) (Q ! ?m n ! j))
            else scalar exact_dtype (- 9999)) ` {..<d_len}))
      = (\<Sum>j<q_len. Max ((\<lambda>i. if M ! n ! i
            then (\<Sum>k<e_dim. D ! n ! i ! k * Q ! ?m n ! j ! k) else - 9999) ` {..<d_len}))"
    if n: "n < N" for n
  proof (rule sum.cong [OF refl])
    fix j assume "j \<in> {..<q_len}"
    then have j: "j < q_len" by simp
    have "(\<lambda>i. if M ! n ! i
            then inner exact_dtype (D ! n ! i) (map (\<lambda>x. x) (Q ! ?m n ! j))
            else scalar exact_dtype (- 9999)) ` {..<d_len}
        = (\<lambda>i. if M ! n ! i
            then (\<Sum>k<e_dim. D ! n ! i ! k * Q ! ?m n ! j ! k) else - 9999) ` {..<d_len}"
    proof (rule image_cong [OF refl])
      fix i assume "i \<in> {..<d_len}"
      then have i: "i < d_len" by simp
      have "inner exact_dtype (D ! n ! i) (Q ! ?m n ! j) = (\<Sum>k<e_dim. D ! n ! i ! k * Q ! ?m n ! j ! k)"
        using inner_exact [OF shape3_nth_nth [OF D n i] shape3_nth_nth [OF Q qi [OF n] j]] .
      then show "(if M ! n ! i
            then inner exact_dtype (D ! n ! i) (map (\<lambda>x. x) (Q ! ?m n ! j))
            else scalar exact_dtype (- 9999))
          = (if M ! n ! i then (\<Sum>k<e_dim. D ! n ! i ! k * Q ! ?m n ! j ! k) else - 9999)"
        by (simp add: scalar_exact)
    qed
    then show "Max ((\<lambda>i. if M ! n ! i
            then inner exact_dtype (D ! n ! i) (map (\<lambda>x. x) (Q ! ?m n ! j))
            else scalar exact_dtype (- 9999)) ` {..<d_len})
        = Max ((\<lambda>i. if M ! n ! i
            then (\<Sum>k<e_dim. D ! n ! i ! k * Q ! ?m n ! j ! k) else - 9999) ` {..<d_len})"
      by simp
  qed
  then show ?thesis
    unfolding colbert_score_value [OF Q D M NQ pos dev] reduce_sum_exact
    by (intro arg_cong [where f = Inr] map_cong refl) simp
qed




text \<open>From seven query tokens on, the score of a fully masked document is below the
  half-precision range.\<close>

lemma colbert_score_half_precision_overflow:
  "colbert_score (Inr float16) float16 round16 [replicate 7 [1]] [[[Finite 1]]] [[False]] True
   = Inr [NegInf]"
  by code_simp

lemma colbert_score_reduce_empty_axis:
  fixes S :: "('a::linorder) tensor3"
  assumes S: "shape3 S N 0 q_len" and M: "shape2 M N 0" and N: "0 < N"
  shows "snd (colbert_score_reduce ar S M) = Inl IndexError"
proof -
  let ?S' = "masked_assign S (map (map Not) M) (scalar ar (- 9999))"
  have lS: "length S = N" and lM: "length M = N" using S M by (simp_all add: shape3_def shape2_def)
  have lS': "length ?S' = N" using masked_assign_length(1) [of "map (map Not) M" S] lS lM by simp
  have "?S' ! 0 = []" using masked_rows(1) [OF S M N, of "scalar ar (- 9999)"] by simp
  then have "list_ex (\<lambda>doc. doc = []) ?S'"
    using lS' N by (auto simp: list_ex_iff in_set_conv_nth)
  then show ?thesis
    using view2_shape2 [OF S M] by (simp add: colbert_score_reduce_def max_dim1_def Let_def)
qed

lemma colbert_score_empty_document_axis:
  fixes D :: "('a::linorder) tensor3"
  assumes Q: "shape3 Q N_q q_len e_dim" and D: "shape3 D N 0 e_dim" and M: "shape2 M N 0"
    and NQ: "N_q = 1 \<or> N_q = N" and N: "0 < N"
    and dev: "(if gpu then cuda else Inr device) = Inr ar"
  shows "colbert_score cuda device to_dtype Q D M gpu = Inl IndexError"
proof -
  let ?Q = "map (map (map to_dtype)) Q"
  let ?S = "map (\<lambda>n. matmul_T ar (D ! n) (?Q ! (if N_q = 1 then 0 else n))) [0..<N]"
  have Q': "shape3 ?Q N_q q_len e_dim" using shape3_map(1) [OF Q] .
  have lD: "length D = N" and lQ: "length Q = N_q" using D Q by (simp_all add: shape3_def)
  have Dn: "shape2 (D ! n) 0 e_dim" if "n < N" for n using shape3_nth [OF D that] .
  have S: "shape3 ?S N 0 q_len"
    unfolding shape3_def shape2_def
    using Dn by (auto simp: list_all_length shape2_def matmul_T_def)
  show ?thesis
    using matmul_permute_shape [OF D Q' NQ, of ar] colbert_score_reduce_empty_axis [OF S M N, of ar]
      NQ lD lQ dev
    by (simp add: colbert_score_def)
qed

text \<open>
  Claim C10 (as amended). \<open>colbert_score_reduce\<close> writes into the caller's similarity
  tensor: after the call the tensor has its shape, every entry at a position whose mask
  entry is false is the sentinel \<open>-9999\<close> as the tensor's dtype stores it, and every entry at
  a mask-true position is what it was.
\<close>

theorem colbert_score_reduce_in_place:
  fixes S :: "('a::linorder) tensor3"
  assumes S: "shape3 S N d_len q_len" and M: "shape2 M N d_len"
  shows "shape3 (fst (colbert_score_reduce ar S M)) N d_len q_len \<and>
    (\<forall>n<N. \<forall>i<d_len. \<forall>j<q_len.
       fst (colbert_score_reduce ar S M) ! n ! i ! j =
         (if M ! n ! i then S ! n ! i ! j else scalar ar (- 9999)))"
proof -
  let ?S' = "masked_assign S (map (map Not) M) (scalar ar (- 9999))"
  have fst: "fst (colbert_score_reduce ar S M) = ?S'"
    using view2_shape2 [OF S M] by (simp add: colbert_score_reduce_def Let_def)
  have lS: "length S = N" and lM: "length M = N" using S M by (simp_all add: shape3_def shape2_def)
  have lS': "length ?S' = N" using masked_assign_length(1) [of "map (map Not) M" S] lS lM by simp
  have "shape3 ?S' N d_len q_len"
    unfolding shape3_def shape2_def
    using lS' masked_rows(1,2) [OF S M] by (simp add: list_all_length)
  then show ?thesis using fst masked_rows(3) [OF S M] by simp
qed

text \<open>A similarity tensor in half precision: the masked row holds \<open>-10000\<close>, which is
  \<open>-9999\<close> as half precision stores it, and the other row is unchanged.\<close>

theorem colbert_score_reduce_in_place_witness:
  "shape3 [[[Finite 1, Finite 2], [Finite 3, Finite 4]]] 1 2 2 \<and> shape2 [[True, False]] 1 2 \<and>
   fst (colbert_score_reduce float16 [[[Finite 1, Finite 2], [Finite 3, Finite 4]]] [[True, False]])
     ! 0 ! 1 ! 0 = Finite (- 10000) \<and>
   fst (colbert_score_reduce float16 [[[Finite 1, Finite 2], [Finite 3, Finite 4]]] [[True, False]])
     ! 0 ! 0 ! 1 = Finite 2"
proof -
  have S: "shape3 [[[Finite 1, Finite 2], [Finite 3, Finite 4]]] 1 2 2"
    by (simp add: shape3_def shape2_def)
  have M: "shape2 [[True, False]] 1 2" by (simp add: shape2_def)
  have s: "scalar float16 (- 9999) = Finite (- 10000)" by code_simp
  show ?thesis
    using S M colbert_score_reduce_in_place [OF S M, of float16]
    by (simp add: s)
qed

text \<open>
  The statement of claim C10 does not hold in half precision: after the call the masked
  positions of the caller's tensor hold \<open>-10000\<close>, not \<open>-9999\<close>.
\<close>

theorem colbert_score_reduce_half_precision_sentinel:
  "fst (colbert_score_reduce float16 [[[Finite 1, Finite 2], [Finite 3, Finite 4]]] [[True, False]])
   = [[[Finite 1, Finite 2], [Finite (- 10000), Finite (- 10000)]]] \<and>
   fst (colbert_score_reduce float16 [[[Finite 1, Finite 2], [Finite 3, Finite 4]]] [[True, False]])
     ! 0 ! 1 ! 0 \<noteq> Finite (- 9999)"
  by code_simp


section \<open>The in-batch negative labels and score matrix\<close>

lemma mark_positives_append:
  "mark_positives (xs @ ys) step t =
     (case mark_positives xs step t of Inl e \<Rightarrow> Inl e | Inr t' \<Rightarrow> mark_positives ys step t')"
  by (induction xs arbitrary: t) (auto split: sum.splits)

lemma mark_positives_upt:
  assumes "m \<le> B" and "\<And>i. i < m \<Longrightarrow> step * i < N"
  shows "mark_positives [0..<m] step (replicate B (replicate N 0)) =
    Inr (map (\<lambda>i. if i < m then (replicate N 0)[step * i := 1] else replicate N 0) [0..<B])"
  using assms
proof (induction m)
  case 0
  have "replicate B (replicate N (0::int)) = map (\<lambda>i. replicate N 0) [0..<B]"
    by (intro nth_equalityI) simp_all
  then show ?case by simp
next
  case (Suc m)
  let ?t = "map (\<lambda>i. if i < m then (replicate N (0::int))[step * i := 1] else replicate N 0) [0..<B]"
  have IH: "mark_positives [0..<m] step (replicate B (replicate N 0)) = Inr ?t"
    using Suc by simp
  have mB: "m < B" and sm: "step * m < N" using Suc.prems by simp_all
  have "assign2 ?t m (step * m) 1 = Inr (?t[m := (?t ! m)[step * m := 1]])"
    using mB sm by (simp add: assign2_def)
  moreover have "?t[m := (?t ! m)[step * m := 1]] =
      map (\<lambda>i. if i < Suc m then (replicate N (0::int))[step * i := 1] else replicate N 0) [0..<B]"
    using mB by (intro nth_equalityI) (auto simp: nth_list_update less_Suc_eq)
  ultimately show ?case
    using IH by (simp add: mark_positives_append)
qed

lemma onehot_split:
  "j < N \<Longrightarrow> (replicate N (0::int))[j := 1] = replicate j 0 @ 1 # replicate (N - Suc j) 0"
  by (simp add: upd_conv_take_nth_drop min_def)

lemma takeWhile_zeros_one:
  "takeWhile (\<lambda>x. x \<noteq> 1) (replicate j (0::int) @ 1 # ys) = replicate j 0"
  by (induction j) simp_all

lemma argmax_onehot: "j < N \<Longrightarrow> argmax ((replicate N 0)[j := 1]) = j"
proof -
  assume j: "j < N"
  let ?row = "replicate j (0::int) @ 1 # replicate (N - Suc j) 0"
  have "Max (set ?row) = 1" by (rule Max_eqI) auto
  moreover have "takeWhile (\<lambda>x. x \<noteq> 1) ?row = replicate j 0"
    by (rule takeWhile_zeros_one)
  ultimately show ?thesis by (simp add: argmax_def onehot_split [OF j])
qed

lemma in_batch_labels_positive:
  assumes B: "0 < B"
  shows "in_batch_labels B (B * (1 + k)) = Inr (map (\<lambda>i. i * (1 + k)) [0..<B])"
proof -
  let ?N = "B * (1 + k)"
  have step: "?N div B = 1 + k" using B by simp
  have bound: "(1 + k) * i < ?N" if "i < B" for i
  proof -
    have "i * (1 + k) < B * (1 + k)" using that by (subst mult_less_cancel2) simp
    then show ?thesis by (simp add: mult.commute)
  qed
  let ?t = "map (\<lambda>i. if i < B then (replicate ?N (0::int))[(1 + k) * i := 1] else replicate ?N 0) [0..<B]"
  have mark: "mark_positives [0..<B] (1 + k) (replicate B (replicate ?N 0)) = Inr ?t"
    using mark_positives_upt [of B B "1 + k" ?N] bound by simp
  have N: "0 < ?N" using B by simp
  have "length r = ?N" if "r \<in> set ?t" for r using that by auto
  then have ne: "\<not> list_ex (\<lambda>r. r = []) ?t" using N by (fastforce simp: list_ex_iff)
  have "map argmax ?t = map (\<lambda>i. i * (1 + k)) [0..<B]"
    using argmax_onehot [OF bound] by (intro nth_equalityI) (simp_all add: mult.commute)
  then show ?thesis
    using B mark ne unfolding in_batch_labels_def Let_def step argmax_dim1_def
    by simp
qed



lemma map_upt_blocks:
  "map h [0..<B * N] = concat (map (\<lambda>b. map (\<lambda>n. h (b * N + n)) [0..<N]) [0..<B])"
proof (induction B)
  case 0
  then show ?case by simp
next
  case (Suc B)
  have split: "[0..<B * N + N] = [0..<B * N] @ [B * N..<B * N + N]"
    by (rule upt_add_eq_append) simp
  have "[B * N..<N + B * N] = map (\<lambda>i. i + B * N) [0..<N]"
    using map_add_upt [of "B * N" N] by simp
  then have shift: "[B * N..<B * N + N] = map (\<lambda>i. i + B * N) [0..<N]"
    by (simp only: add.commute [of "B * N" N])
  have "map h [0..<Suc B * N] = map h [0..<B * N] @ map h [B * N..<B * N + N]"
    using split by (simp add: add.commute)
  also have "map h [B * N..<B * N + N] = map (\<lambda>n. h (B * N + n)) [0..<N]"
    unfolding shift by (simp add: comp_def add.commute)
  finally show ?case using Suc.IH by simp
qed

lemma nth_concat_rect:
  "list_all (\<lambda>r. length r = N) xss \<Longrightarrow> b < length xss \<Longrightarrow> n < N \<Longrightarrow>
   concat xss ! (b * N + n) = xss ! b ! n"
proof (induction xss arbitrary: b)
  case Nil
  then show ?case by simp
next
  case (Cons x xss)
  have lx: "length x = N" using Cons.prems(1) by simp
  show ?case
  proof (cases b)
    case 0
    then show ?thesis using lx Cons.prems(3) by (simp add: nth_append)
  next
    case (Suc b')
    then have "concat (x # xss) ! (b * N + n) = concat xss ! (b' * N + n)"
      using lx by (simp add: nth_append)
    then show ?thesis using Cons.IH [of b'] Cons.prems Suc by simp
  qed
qed

lemma reshape_rows_concat:
  assumes "length rows = B" and "0 < B" and "list_all (\<lambda>r. length r = N) rows"
  shows "reshape_rows (concat rows) B = Inr rows"
proof -
  have len: "length (concat rows) = B * N"
    using length_concat_rect [OF assms(3)] assms(1) by simp
  then have "length (concat rows) div B = N" "length (concat rows) mod B = 0"
    using assms(2) by simp_all
  then show ?thesis
    using chunks_concat [OF assms(3)] assms(1,2) by (simp add: reshape_rows_def)
qed



lemma cross_scores_shape:
  assumes Q: "shape3 Q B q_len e_dim" and D: "shape3 D N d_len e_dim"
  shows "cross_scores ar D Q = Inr (concat (map (\<lambda>q. map (\<lambda>d. matmul_T ar d q) D) Q))"
    and "shape3 (concat (map (\<lambda>q. map (\<lambda>d. matmul_T ar d q) D) Q)) (B * N) d_len q_len"
    and "b < B \<Longrightarrow> n < N \<Longrightarrow>
         concat (map (\<lambda>q. map (\<lambda>d. matmul_T ar d q) D) Q) ! (b * N + n) = matmul_T ar (D ! n) (Q ! b)"
proof -
  let ?xss = "map (\<lambda>q. map (\<lambda>d. matmul_T ar d q) D) Q"
  have lD: "length D = N" and lQ: "length Q = B" using D Q by (simp_all add: shape3_def)
  show "cross_scores ar D Q = Inr (concat ?xss)"
    using same_dim_shape [OF D Q] by (simp add: cross_scores_def)
  have rect: "list_all (\<lambda>r. length r = N) ?xss" using lD by (simp add: list_all_iff)
  have len: "length (concat ?xss) = B * N"
    using length_concat_rect [OF rect] lQ by simp
  have elems: "shape2 x d_len q_len" if mem: "x \<in> set (concat ?xss)" for x
  proof -
    obtain q d where q: "q \<in> set Q" and d: "d \<in> set D" and x: "x = matmul_T ar d q"
      using mem by auto
    have "shape2 d d_len e_dim" "shape2 q q_len e_dim"
      using D Q q d by (auto simp: shape3_def list_all_iff)
    then show ?thesis
      unfolding x by (simp add: shape2_def matmul_T_def list_all_iff)
  qed
  show "shape3 (concat ?xss) (B * N) d_len q_len"
    unfolding shape3_def using len elems by (simp add: list_all_iff)
  show "b < B \<Longrightarrow> n < N \<Longrightarrow> concat ?xss ! (b * N + n) = matmul_T ar (D ! n) (Q ! b)"
    using nth_concat_rect [OF rect, of b n] lQ lD by simp
qed

lemma repeat_mask_shape:
  assumes M: "shape2 M N d_len"
  shows "shape2 (concat (replicate B M)) (B * N) d_len"
    and "b < B \<Longrightarrow> n < N \<Longrightarrow> concat (replicate B M) ! (b * N + n) = M ! n"
proof -
  have lM: "length M = N" using M by (simp add: shape2_def)
  have rect: "list_all (\<lambda>r. length r = N) (replicate B M)" using lM by (simp add: list_all_iff)
  have "length (concat (replicate B M)) = B * N"
    using length_concat_rect [OF rect] by simp
  moreover have "list_all (\<lambda>r. length r = d_len) (concat (replicate B M))"
    using M by (auto simp: shape2_def list_all_iff)
  ultimately show "shape2 (concat (replicate B M)) (B * N) d_len" by (simp add: shape2_def)
  show "b < B \<Longrightarrow> n < N \<Longrightarrow> concat (replicate B M) ! (b * N + n) = M ! n"
    using nth_concat_rect [OF rect, of b n] by simp
qed


text \<open>What \<open>compute_ib_loss_new\<close> hands to the loss function, in the arithmetic \<open>ar\<close>.\<close>

lemma compute_ib_loss_new_value:
  fixes ar :: "('a::linorder) dtype"
  assumes Q: "shape3 Q B q_len e_dim" and D: "shape3 D (B * (1 + k)) d_len e_dim"
    and M: "shape2 M (B * (1 + k)) d_len" and B: "0 < B" and pos: "0 < d_len"
  shows "compute_ib_loss_new ar to_float loss_fn Q D M =
    Inr (loss_fn
      (map (\<lambda>b. map (\<lambda>n. reduce_sum ar (map (\<lambda>j. Max ((\<lambda>i.
                 if M ! n ! i
                 then inner ar (map to_float (D ! n ! i)) (map to_float (Q ! b ! j))
                 else scalar ar (- 9999)) ` {..<d_len})) [0..<q_len]))
              [0..<B * (1 + k)])
         [0..<B])
      (map (\<lambda>i. i * (1 + k)) [0..<B]))"
proof -
  let ?N = "B * (1 + k)"
  let ?Q = "map (map (map to_float)) Q"
  let ?D = "map (map (map to_float)) D"
  let ?X = "concat (map (\<lambda>q. map (\<lambda>d. matmul_T ar d q) ?D) ?Q)"
  let ?R = "concat (replicate B M)"
  let ?h = "\<lambda>m. reduce_sum ar (map (\<lambda>j. Max ((\<lambda>i.
      if ?R ! m ! i then ?X ! m ! i ! j else scalar ar (- 9999)) ` {..<d_len})) [0..<q_len])"
  let ?g = "\<lambda>b n. reduce_sum ar (map (\<lambda>j. Max ((\<lambda>i.
      if M ! n ! i then inner ar (map to_float (D ! n ! i)) (map to_float (Q ! b ! j))
      else scalar ar (- 9999)) ` {..<d_len})) [0..<q_len])"
  let ?rows = "map (\<lambda>b. map (?g b) [0..<?N]) [0..<B]"
  have Q': "shape3 ?Q B q_len e_dim" using shape3_map(1) [OF Q] .
  have D': "shape3 ?D ?N d_len e_dim" using shape3_map(1) [OF D] .
  have lD: "length D = ?N" and lQ: "length Q = B" using D Q by (simp_all add: shape3_def)
  note X = cross_scores_shape [OF Q' D', where ar = ar]
  note R = repeat_mask_shape [OF M, where B = B]
  have entry: "?X ! (b * ?N + n) ! i ! j = inner ar (map to_float (D ! n ! i)) (map to_float (Q ! b ! j))"
    if b: "b < B" and n: "n < ?N" and i: "i < d_len" and j: "j < q_len" for b n i j
  proof -
    have Dn: "shape2 (?D ! n) d_len e_dim" using shape3_nth [OF D' n] .
    have Qb: "shape2 (?Q ! b) q_len e_dim" using shape3_nth [OF Q' b] .
    have li: "i < length (?D ! n)" and lj: "j < length (?Q ! b)"
      using Dn Qb i j by (simp_all add: shape2_def)
    have "?X ! (b * ?N + n) ! i ! j = inner ar (?D ! n ! i) (?Q ! b ! j)"
      unfolding X(3) [OF b n] using matmul_T_shape(3) [OF li lj] .
    also have "?D ! n ! i = map to_float (D ! n ! i)" using shape3_map(2) [OF D n i] .
    also have "?Q ! b ! j = map to_float (Q ! b ! j)" using shape3_map(2) [OF Q b j] .
    finally show ?thesis .
  qed
  have hg: "?h (b * ?N + n) = ?g b n" if b: "b < B" and n: "n < ?N" for b n
  proof (rule arg_cong [where f = "reduce_sum ar"], rule map_cong [OF refl])
    fix j assume "j \<in> set [0..<q_len]"
    then have j: "j < q_len" by simp
    have "(\<lambda>i. if ?R ! (b * ?N + n) ! i then ?X ! (b * ?N + n) ! i ! j else scalar ar (- 9999)) ` {..<d_len}
        = (\<lambda>i. if M ! n ! i then inner ar (map to_float (D ! n ! i)) (map to_float (Q ! b ! j))
             else scalar ar (- 9999)) ` {..<d_len}"
      using entry [OF b n _ j] R(2) [OF b n] by (intro image_cong) simp_all
    then show "Max ((\<lambda>i. if ?R ! (b * ?N + n) ! i then ?X ! (b * ?N + n) ! i ! j
             else scalar ar (- 9999)) ` {..<d_len})
        = Max ((\<lambda>i. if M ! n ! i then inner ar (map to_float (D ! n ! i)) (map to_float (Q ! b ! j))
             else scalar ar (- 9999)) ` {..<d_len})"
      by simp
  qed
  have "map ?h [0..<B * ?N] = concat (map (\<lambda>b. map (\<lambda>n. ?h (b * ?N + n)) [0..<?N]) [0..<B])"
    by (rule map_upt_blocks)
  also have "map (\<lambda>b. map (\<lambda>n. ?h (b * ?N + n)) [0..<?N]) [0..<B] = ?rows"
    using hg by (intro map_cong refl) simp_all
  finally have flat: "map ?h [0..<B * ?N] = concat ?rows" .
  have reduce: "snd (colbert_score_reduce ar ?X ?R) = Inr (concat ?rows)"
    by (simp only: colbert_score_reduce_shape [OF X(2) R(1) pos, of ar] snd_conv flat)
  have reshape: "reshape_rows (concat ?rows) B = Inr ?rows"
    by (rule reshape_rows_concat [where N = "?N"]) (simp_all add: B list_all_iff)
  have labels: "in_batch_labels B ?N = Inr (map (\<lambda>i. i * (1 + k)) [0..<B])"
    using in_batch_labels_positive [OF B] .
  show ?thesis
    by (simp only: compute_ib_loss_new_def lQ lD X(1) reduce reshape labels sum.case)
qed

text \<open>In arithmetic without rounding, on tensors of the dtype of the scores, the entries
  of the score matrix are the sums of the greatest dot products.\<close>

lemma compute_ib_loss_new_exact:
  fixes Q D :: "('a::linordered_idom) tensor3"
  assumes Q: "shape3 Q B q_len e_dim" and D: "shape3 D (B * (1 + k)) d_len e_dim"
    and M: "shape2 M (B * (1 + k)) d_len" and B: "0 < B" and pos: "0 < d_len"
  shows "compute_ib_loss_new exact_dtype (\<lambda>x. x) loss_fn Q D M =
    Inr (loss_fn
      (map (\<lambda>b. map (\<lambda>n. \<Sum>j<q_len. Max ((\<lambda>i.
                 if M ! n ! i then (\<Sum>c<e_dim. D ! n ! i ! c * Q ! b ! j ! c) else - 9999) ` {..<d_len}))
              [0..<B * (1 + k)])
         [0..<B])
      (map (\<lambda>i. i * (1 + k)) [0..<B]))"
proof -
  let ?N = "B * (1 + k)"
  have entry: "(\<Sum>j<q_len. Max ((\<lambda>i. if M ! n ! i
            then inner exact_dtype (map (\<lambda>x. x) (D ! n ! i)) (map (\<lambda>x. x) (Q ! b ! j))
            else scalar exact_dtype (- 9999)) ` {..<d_len}))
      = (\<Sum>j<q_len. Max ((\<lambda>i. if M ! n ! i
            then (\<Sum>c<e_dim. D ! n ! i ! c * Q ! b ! j ! c) else - 9999) ` {..<d_len}))"
    if b: "b < B" and n: "n < ?N" for b n
  proof (rule sum.cong [OF refl])
    fix j assume "j \<in> {..<q_len}"
    then have j: "j < q_len" by simp
    have "(\<lambda>i. if M ! n ! i
            then inner exact_dtype (map (\<lambda>x. x) (D ! n ! i)) (map (\<lambda>x. x) (Q ! b ! j))
            else scalar exact_dtype (- 9999)) ` {..<d_len}
        = (\<lambda>i. if M ! n ! i
            then (\<Sum>c<e_dim. D ! n ! i ! c * Q ! b ! j ! c) else - 9999) ` {..<d_len}"
    proof (rule image_cong [OF refl])
      fix i assume "i \<in> {..<d_len}"
      then have i: "i < d_len" by simp
      have "inner exact_dtype (D ! n ! i) (Q ! b ! j) = (\<Sum>c<e_dim. D ! n ! i ! c * Q ! b ! j ! c)"
        using inner_exact [OF shape3_nth_nth [OF D n i] shape3_nth_nth [OF Q b j]] .
      then show "(if M ! n ! i
            then inner exact_dtype (map (\<lambda>x. x) (D ! n ! i)) (map (\<lambda>x. x) (Q ! b ! j))
            else scalar exact_dtype (- 9999))
          = (if M ! n ! i then (\<Sum>c<e_dim. D ! n ! i ! c * Q ! b ! j ! c) else - 9999)"
        by (simp add: scalar_exact)
    qed
    then show "Max ((\<lambda>i. if M ! n ! i
            then inner exact_dtype (map (\<lambda>x. x) (D ! n ! i)) (map (\<lambda>x. x) (Q ! b ! j))
            else scalar exact_dtype (- 9999)) ` {..<d_len})
        = Max ((\<lambda>i. if M ! n ! i
            then (\<Sum>c<e_dim. D ! n ! i ! c * Q ! b ! j ! c) else - 9999) ` {..<d_len})"
      by simp
  qed
  show ?thesis
    unfolding compute_ib_loss_new_value [OF Q D M B pos] reduce_sum_exact
    by (intro arg_cong [where f = Inr] arg_cong2 [where f = loss_fn] map_cong refl)
      (simp add: entry)
qed

text \<open>
  Claim C3 (as amended). For \<open>B \<ge> 1\<close> queries and \<open>B * (1 + k)\<close> documents,
  \<open>compute_ib_loss_new\<close> applies the cross-entropy \<open>loss_fn\<close> to a score matrix of \<open>B\<close> rows
  and \<open>B * (1 + k)\<close> columns, whose entry for query \<open>b\<close> and document \<open>n\<close> is the masked
  MaxSim score in single precision, and to the label vector whose entry for query \<open>i\<close> is
  \<open>i * (1 + k)\<close>. This holds in every arithmetic \<open>ar\<close>; \<open>compute_ib_loss_new_exact\<close> above
  is the case of arithmetic without rounding.
\<close>

theorem compute_ib_loss_new_labels:
  fixes ar :: "('a::linorder) dtype"
  assumes Q: "shape3 Q B q_len e_dim" and D: "shape3 D (B * (1 + k)) d_len e_dim"
    and M: "shape2 M (B * (1 + k)) d_len" and B: "0 < B" and pos: "0 < d_len"
  shows "compute_ib_loss_new ar to_float loss_fn Q D M =
    Inr (loss_fn
      (map (\<lambda>b. map (\<lambda>n. reduce_sum ar (map (\<lambda>j. Max ((\<lambda>i.
                 if M ! n ! i
                 then inner ar (map to_float (D ! n ! i)) (map to_float (Q ! b ! j))
                 else scalar ar (- 9999)) ` {..<d_len})) [0..<q_len]))
              [0..<B * (1 + k)])
         [0..<B])
      (map (\<lambda>i. i * (1 + k)) [0..<B]))"
  using compute_ib_loss_new_value [OF Q D M B pos] .

text \<open>Two queries with one negative each, in arithmetic without rounding: the labels are
  \<open>[0, 2]\<close>.\<close>

theorem compute_ib_loss_new_labels_witness:
  "shape3 [[[1, 2]], [[3, 4::int]]] 2 1 2 \<and>
   shape3 [[[1, 0], [0, 1]], [[1, 1], [2, 2]], [[1, 1], [2, 2]], [[0, 0], [0, 1::int]]] (2 * (1 + 1)) 2 2 \<and>
   shape2 [[True, True], [True, False], [False, False], [True, True]] (2 * (1 + 1)) 2 \<and>
   compute_ib_loss_new exact_dtype (\<lambda>x. x) (\<lambda>scores labels. (scores, labels))
     [[[1, 2]], [[3, 4::int]]]
     [[[1, 0], [0, 1]], [[1, 1], [2, 2]], [[1, 1], [2, 2]], [[0, 0], [0, 1]]]
     [[True, True], [True, False], [False, False], [True, True]]
   = Inr ([[2, 3, - 9999, 2], [4, 7, - 9999, 4]], [0, 2])"
proof -
  have Q: "shape3 [[[1, 2]], [[3, 4::int]]] 2 1 2" by (simp add: shape3_def shape2_def)
  have D: "shape3 [[[1, 0], [0, 1]], [[1, 1], [2, 2]], [[1, 1], [2, 2]], [[0, 0], [0, 1::int]]]
      (2 * (1 + 1)) 2 2"
    by (simp add: shape3_def shape2_def)
  have M: "shape2 [[True, True], [True, False], [False, False], [True, True]] (2 * (1 + 1)) 2"
    by (simp add: shape2_def)
  have one: "{..<1::nat} = {0}" by auto
  have two: "{..<2::nat} = {0, 1}" by auto
  have upt1: "[0..<1] = [0]" by (simp add: upt_conv_Cons)
  have upt2: "[0..<2] = [0, 1]" by (simp add: upt_conv_Cons)
  have upt4: "[0..<4] = [0, 1, 2, 3]" by (simp add: upt_conv_Cons)
  show ?thesis
    using Q D M compute_ib_loss_new_labels [OF Q D M, of exact_dtype "\<lambda>x. x"
        "\<lambda>scores labels. (scores, labels)"]
    by (simp add: one two upt1 upt2 upt4 exact_dtype_def dot_def)
qed

text \<open>
  The instance stated in claim C3 does not hold: with \<open>B = 2\<close> and \<open>k = 1\<close> there are four documents
  and the label vector is \<open>[0, 2]\<close>; \<open>[0, 3]\<close> is the vector of \<open>k = 2\<close> (six documents).
\<close>

theorem in_batch_labels_two_queries_one_negative:
  "in_batch_labels 2 (2 * (1 + 1)) \<noteq> Inr [0, 3]"
proof -
  have "[0..<2] = [0, 1]" by (simp add: upt_conv_Cons)
  then have "in_batch_labels 2 (2 * (1 + 1)) = Inr [0, 2]"
    using in_batch_labels_positive [of 2 1] by simp
  then show ?thesis by simp
qed


section \<open>Claims about the gather step and the packed path\<close>

text \<open>
  Claim C8. When the distributed world size is 1, \<open>gather_tensors_from_other_gpus\<close> returns
  its three inputs, the query embeddings, the document embeddings and the document mask,
  as they are.
\<close>

theorem gather_tensors_from_other_gpus_single_worker:
  "get_world_size env = 1 \<Longrightarrow>
   gather_tensors_from_other_gpus env query_embeddings item_embeddings item_mask =
     (query_embeddings, item_embeddings, item_mask)"
  by (simp add: gather_tensors_from_other_gpus_def)

theorem gather_tensors_from_other_gpus_single_worker_witness:
  "gather_tensors_from_other_gpus
     \<lparr>get_world_size = 1, get_rank = 0, all_gather_query = (\<lambda>q. [q]),
      all_gather_item = (\<lambda>d. [d]), all_gather_mask = (\<lambda>m. [m])\<rparr>
     [[[1, 2::int]]] [[[3, 4::int]], [[5, 6]]] [[True], [False]]
   = ([[[1, 2]]], [[[3, 4]], [[5, 6]]], [[True], [False]])"
  using gather_tensors_from_other_gpus_single_worker
    [of "\<lparr>get_world_size = 1, get_rank = 0, all_gather_query = (\<lambda>q. [q]),
      all_gather_item = (\<lambda>d. [d]), all_gather_mask = (\<lambda>m. [m])\<rparr>"
      "[[[1, 2::int]]]" "[[[3, 4::int]], [[5, 6]]]" "[[True], [False]]"]
  by simp

text \<open>
  The packed path. With a visible GPU or the \<^verbatim>\<open>flipr\<close> interaction,
  \<open>colbert_score_packed\<close> calls \<open>colbert_score_reduce\<close> with three arguments and never
  returns scores; on the other branch it needs the extension, which the constructor never
  loads.
\<close>

lemma colbert_score_packed_padded_path:
  assumes "0 < total_visible_gpus config \<or> interaction config = ''flipr''"
  shows "\<exists>e. colbert_score_packed cuda device to_dtype as_padded_tensor segmented_maxsim
           Q D_packed D_lengths config = Inl e"
  using assms
  by (auto simp: colbert_score_packed_def call_colbert_score_reduce_def Let_def split: sum.splits)

lemma colbert_score_packed_extension_not_loaded:
  assumes "total_visible_gpus config = 0" and "interaction config \<noteq> ''flipr''"
  shows "\<exists>e. colbert_score_packed cuda device to_dtype as_padded_tensor
           (try_load_torch_extensions None load True) Q D_packed D_lengths config = Inl e"
  using assms
  by (auto simp: colbert_score_packed_def try_load_torch_extensions_def Let_def split: sum.splits)

text \<open>
  Claim C4 (the code departs from it). Two documents with the mask \<open>[[True, False],
  [True, True]]\<close> score \<open>[4, 20]\<close> on the padded path, in arithmetic without rounding; on
  their packed form, the mask-true rows with the lengths \<open>[1, 2]\<close>, \<open>colbert_score_packed\<close>
  with one visible GPU raises, whatever the arithmetic, the conversion of the query, the
  padding routine and the extension are.
\<close>

theorem colbert_score_packed_type_error:
  "colbert_score (Inr exact_dtype) exact_dtype (\<lambda>x. x)
     [[[1, 2], [3, 4::int]]] [[[1, 0], [0, 1]], [[1, 1], [2, 2]]]
     [[True, False], [True, True]] True = Inr [4, 20] \<and>
   (\<forall>cuda device to_dtype as_padded_tensor segmented_maxsim. \<exists>e.
      colbert_score_packed cuda device to_dtype as_padded_tensor segmented_maxsim
        [[[1, 2], [3, 4::int]]] [[1, 0], [1, 1], [2, 2::int]] [1, 2]
        \<lparr>total_visible_gpus = 1, interaction = ''colbert''\<rparr> = Inl e)"
proof -
  have "colbert_score (Inr exact_dtype) exact_dtype (\<lambda>x. x)
     [[[1, 2], [3, 4::int]]] [[[1, 0], [0, 1]], [[1, 1], [2, 2]]]
     [[True, False], [True, True]] True = Inr [4, 20]"
    by (simp add: colbert_score_def matmul_permute_def same_dim_def matmul_T_def dot_def
        exact_dtype_def colbert_score_reduce_def view2_def size0_def size1_def masked_assign_def
        max_dim1_def max_rows_def sum_last_def Let_def upt_conv_Cons)
  moreover have "\<forall>cuda device to_dtype as_padded_tensor segmented_maxsim. \<exists>e.
      colbert_score_packed cuda device to_dtype as_padded_tensor segmented_maxsim
        [[[1, 2], [3, 4::int]]] [[1, 0], [1, 1], [2, 2::int]] [1, 2]
        \<lparr>total_visible_gpus = 1, interaction = ''colbert''\<rparr> = Inl e"
    by (intro allI colbert_score_packed_padded_path) simp
  ultimately show ?thesis by simp
qed


section \<open>Claims about the encoders\<close>

text \<open>In ragged mode the return statement of \<open>doc\<close> indexes a Python list with
  \<^verbatim>\<open>[:, 0, :]\<close>: the call raises on every input.\<close>

lemma context_output_ragged:
  "\<exists>e. context_output m D0 msk Keep_False return_mask = Inl e"
  by (simp add: context_output_def Let_def split: sum.split)

lemma doc_ragged_raises:
  "\<exists>e. doc m input_ids attention_mask pixel_values image_features cv ct Keep_False return_mask = Inl e"
  using context_output_ragged [of m _ _ return_mask]
  by (simp add: doc_def Let_def split: sum.split prod.split)

lemma query_both_image_inputs:
  "query m input_ids attention_mask (Some px) (Some f) cv ct = Inl AssertionError"
  by (simp add: query_def Let_def)

lemma doc_both_image_inputs:
  "doc m input_ids attention_mask (Some px) (Some f) cv ct keep_dims return_mask = Inl AssertionError"
  by (simp add: doc_def Let_def)

lemma text_branch_absent:
  "input_ids = None \<or> attention_mask = None \<Longrightarrow>
   text_branch encoder linear_layer skip input_ids attention_mask = Inr None"
  by (auto simp: text_branch_def split: option.splits)

lemma image_branch_absent: "image_branch encoder projection p d None None = Inr None"
  by (simp add: image_branch_def)

lemma query_no_inputs:
  "input_ids = None \<or> attention_mask = None \<Longrightarrow>
   query m input_ids attention_mask None None cv ct = Inl UnboundLocalError"
  by (simp add: query_def Let_def text_branch_absent image_branch_absent concat_query_def)

lemma doc_no_inputs:
  "input_ids = None \<or> attention_mask = None \<Longrightarrow>
   doc m input_ids attention_mask None None cv ct keep_dims return_mask =
     Inl (if keep_dims = Keep_flatten then AssertionError else UnboundLocalError)"
  by (simp add: doc_def Let_def text_branch_absent image_branch_absent concat_context_def)

text \<open>
  Claim C9. \<open>query\<close> and \<open>doc\<close> raise, and so return no output, when a pixel tensor and
  a precomputed image feature tensor are both supplied (the second \<^verbatim>\<open>assert\<close>), and
  when neither text inputs (token ids with their attention mask) nor image inputs are
  supplied (the embeddings to return are an unbound variable).
\<close>

theorem encoders_reject_bad_inputs:
  "(pixel_values \<noteq> None \<and> image_features \<noteq> None \<longrightarrow>
      query m input_ids attention_mask pixel_values image_features cv ct = Inl AssertionError \<and>
      doc m input_ids attention_mask pixel_values image_features cv ct keep_dims return_mask
        = Inl AssertionError) \<and>
   ((input_ids = None \<or> attention_mask = None) \<and> pixel_values = None \<and> image_features = None \<longrightarrow>
      query m input_ids attention_mask pixel_values image_features cv ct = Inl UnboundLocalError \<and>
      doc m input_ids attention_mask pixel_values image_features cv ct keep_dims return_mask
        = Inl (if keep_dims = Keep_flatten then AssertionError else UnboundLocalError))"
  using query_both_image_inputs doc_both_image_inputs query_no_inputs doc_no_inputs
  by (metis not_None_eq)

theorem encoders_reject_bad_inputs_witness:
  "query example_model (Some [[7, 0]]) (Some [[1, 0]]) (Some [3]) (Some [[5]]) None None
     = Inl AssertionError \<and>
   doc example_model (Some [[7, 0]]) (Some [[1, 0]]) (Some [3]) (Some [[5]]) None None Keep_True True
     = Inl AssertionError \<and>
   query example_model None None None None None None = Inl UnboundLocalError \<and>
   doc example_model None None None None None None Keep_True True = Inl UnboundLocalError"
  using encoders_reject_bad_inputs
      [of "Some [3]" "Some [[5]]" example_model "Some [[7, 0]]" "Some [[1, 0]]" None None Keep_True True]
    encoders_reject_bad_inputs
      [of None None example_model None None None None Keep_True True]
  by simp

text \<open>
  Claim C2 (the code departs from it). One document with the tokens \<open>[7, 0]\<close>, the second
  one padding, and one image, both modalities requested, prefix length 2. The first two
  positions of the returned embeddings are the two pseudo-tokens of the image; the first
  two positions of the returned mask are \<open>[True, False]\<close>, the mask of the two text
  tokens, and the all-ones mask of the vision segment stands last.
\<close>

theorem doc_mask_text_first:
  "doc example_model (Some [[7, 0]]) (Some [[1, 0]]) None (Some [[5]]) (Some True) (Some True)
     Keep_True True
   = Inr \<lparr>pooler_output = [[5]],
          late_interaction_output = [[[5], [5], [7], [0]]],
          context_mask = Some [[True, False, True, True]]\<rparr>"
  by (simp add: doc_def example_model_def text_branch_def image_branch_def mask_ids_def
      mul_mask_def view_prefix_def cat_dim1_def first_position_def Let_def upt_conv_Cons
      concat_context_def context_output_def
      numeral_2_eq_2)

text \<open>
  Claim C7 (the code departs from it). With \<^verbatim>\<open>keep_dims=False\<close> the list comprehension
  selects the mask-true rows, here \<open>[[7]]\<close> of the document \<open>[[7], [0]]\<close>, and the return
  statement then raises \<^verbatim>\<open>TypeError\<close>: no list is returned.
\<close>

theorem doc_ragged_type_error:
  "doc example_model (Some [[7, 0]]) (Some [[1, 0]]) None None None None Keep_False True
     = Inl TypeError \<and>
   ragged_rows [[[7], [0]]] [[True, False]] = Inr [[[7::int]]]"
  by (simp add: doc_def example_model_def text_branch_def image_branch_def mask_ids_def
      mul_mask_def ragged_rows_def Let_def concat_context_def context_output_def)



section \<open>Claims about the batch encoder\<close>

text \<open>The dense mode hands the input tuples to \<open>stack_3D_tensors\<close>, not the encoded
  batches: with a batch size, \<open>docFromText\<close> raises on every collection.\<close>

lemma tensors_of_tuples:
  "tensors_of (map Tuple bs) = (if bs = [] then Inr [] else Inl AttributeError)"
  by (cases bs) simp_all

lemma stack_3D_tensors_tuples:
  "stack_3D_tensors (map Tuple bs) = Inl (if bs = [] then ValueError else AttributeError)"
  by (simp add: stack_3D_tensors_def tensors_of_tuples)

lemma docFromText_dense_raises:
  assumes "bsize = Some b" and "b \<noteq> 0"
  shows "\<exists>e. docFromText m context_tokenizer load_image docs bsize Keep_True to_cpu return_tokens
           = Inl e"
  using assms
  by (simp add: docFromText_def stack_3D_tensors_tuples Let_def split: sum.split prod.split)

text \<open>
  Claim C6 (the code departs from it). Three texts, batch size 2, dense mode: the call
  raises \<^verbatim>\<open>AttributeError\<close> and returns no tensor.
\<close>

theorem docFromText_dense_attribute_error:
  "docFromText example_model example_tokenizer (\<lambda>p::nat option. Inr (0::int))
     (Texts [''abc'', ''d'', ''ef'']) (Some 2) Keep_True False False = Inl AttributeError"
  by code_simp

text \<open>On tensors the helper does pad with zero rows to the greatest length and stack.\<close>

lemma tensors_of_tensors: "tensors_of (map Tensor ts) = Inr ts"
  by (induction ts) simp_all

lemma stack_3D_tensors_pads:
  assumes all: "list_all (\<lambda>x. list_all (\<lambda>d. list_all (\<lambda>r. length r = size2 g) d) x) (g # gs)"
  shows "stack_3D_tensors (map Tensor (g # gs) :: (('a::zero), 'p) pyobj list) =
    Inr (concat (map (map (\<lambda>d. d @ replicate (Max (set (map size1 (g # gs))) - length d)
                                   (replicate (size2 g) 0))) (g # gs)))"
proof -
  let ?pad = "\<lambda>d :: 'a list list.
    replicate (Max (set (map size1 (g # gs))) - length d) (replicate (size2 g) (0::'a))"
  have T: "tensors_of (map Tensor (g # gs) :: ('a, 'p) pyobj list) = Inr (g # gs)"
    using tensors_of_tensors [of "g # gs"] .
  have C: "list_all (\<lambda>x. list_all (\<lambda>d. list_all (\<lambda>r. length r = size2 g \<or> length r = 1) d) x)
      (g # gs)"
    using all by (auto simp: list_all_iff)
  have E: "map (map (\<lambda>d. map (broadcast_row (size2 g)) d @ ?pad d)) (g # gs)
      = map (map (\<lambda>d. d @ ?pad d)) (g # gs)"
  proof (intro map_cong refl)
    fix x d assume "x \<in> set (g # gs)" and "d \<in> set x"
    then have "list_all (\<lambda>r. length r = size2 g) d" using all by (auto simp: list_all_iff)
    then have "map (broadcast_row (size2 g)) d = d"
      by (intro map_idI) (simp add: broadcast_row_def list_all_iff)
    then show "map (broadcast_row (size2 g)) d @ ?pad d = d @ ?pad d" by simp
  qed
  show ?thesis
    by (simp only: stack_3D_tensors_def T sum.case list.case Let_def C if_True E)
qed


text \<open>The sort permutation, the batches and the flattened mode.\<close>

lemma mset_argsort: "mset (argsort keys) = mset [0..<length keys]"
proof -
  have "map snd (zip keys [0..<length keys]) = [0..<length keys]"
    by (rule map_snd_zip) simp
  then have "mset (map snd (sort_key fst (zip keys [0..<length keys]))) = mset [0..<length keys]"
    by (metis mset_map mset_sort)
  then show ?thesis by (simp only: argsort_def)
qed

lemma length_argsort: "length (argsort keys) = length keys"
  by (simp add: argsort_def)

lemma argsort_bound: "i < length keys \<Longrightarrow> argsort keys ! i < length keys"
proof -
  assume i: "i < length keys"
  have "argsort keys ! i \<in> set (argsort keys)" using i by (simp add: length_argsort)
  also have "set (argsort keys) = set [0..<length keys]"
    using mset_argsort [of keys] by (rule mset_eq_setD)
  finally show ?thesis by simp
qed

lemma argsort_all_bound: "list_all (\<lambda>i. i < length keys) (argsort keys)"
  using argsort_bound [of _ keys] by (simp add: list_all_length length_argsort)

lemma argsort_inverse:
  assumes p: "mset p = mset [0..<n]" and i: "i < n"
  shows "p ! (argsort p ! i) = i"
proof -
  have lp: "length p = n" using p by (metis length_upt minus_nat.diff_0 size_mset)
  let ?ps = "zip p [0..<n]"
  let ?s = "sort_key fst ?ps"
  have "map fst ?ps = p" using lp by (intro map_fst_zip) simp
  then have "mset (map fst ?s) = mset [0..<n]" using p by (metis mset_map mset_sort)
  moreover have "sorted (map fst ?s)" by (rule sorted_sort_key)
  ultimately have "sort [0..<n] = map fst ?s" by (rule properties_for_sort)
  then have fsts: "map fst ?s = [0..<n]" by simp
  have ls: "length ?s = n" using lp by simp
  have "fst (?s ! i) = i" using fsts i ls by (metis nth_map nth_upt add_0)
  moreover have "snd (?s ! i) = argsort p ! i" using i ls lp by (simp add: argsort_def)
  ultimately have si: "?s ! i = (i, argsort p ! i)" by (metis prod.collapse)
  have "?s ! i \<in> set ?s" using i ls by (intro nth_mem) (simp only:)
  moreover have "set ?s = set ?ps" by (rule set_sort)
  ultimately have "(i, argsort p ! i) \<in> set ?ps" using si by metis
  then show ?thesis by (auto simp: in_set_zip)
qed

lemma take_chunks:
  "concat (map (\<lambda>i. chunk b i xs) [0..<n]) = take (n * b) xs"
proof (induction n)
  case 0
  then show ?case by simp
next
  case (Suc n)
  have "Suc n * b = n * b + b" by simp
  then have "take (Suc n * b) xs = take (n * b) xs @ take b (drop (n * b) xs)"
    by (simp only: take_add)
  then show ?case using Suc by (simp add: chunk_def)
qed

lemma n_batches_cover: "0 < b \<Longrightarrow> n \<le> n_batches n b * b"
proof -
  assume b: "0 < b"
  have "n + b - 1 < b + ((n + b - 1) div b) * b" using b by (rule dividend_less_div_times)
  then show ?thesis using b by (simp add: n_batches_def)
qed

lemma concat_chunks:
  "0 < b \<Longrightarrow> concat (map (\<lambda>i. chunk b i xs) [0..<n_batches (length xs) b]) = xs"
  using n_batches_cover [of b "length xs"] by (simp add: take_chunks)

lemma for_each_Inr:
  "for_each f xs = Inr ys \<Longrightarrow> length ys = length xs \<and> (\<forall>i<length xs. f (xs ! i) = Inr (ys ! i))"
proof (induction xs arbitrary: ys)
  case Nil
  then show ?case by simp
next
  case (Cons x xs)
  from Cons.prems obtain y ys' where fx: "f x = Inr y" and rest: "for_each f xs = Inr ys'"
    and ys: "ys = y # ys'"
    by (auto split: sum.splits)
  show ?case using Cons.IH [OF rest] fx ys by (auto simp: nth_Cons split: nat.splits)
qed

lemma masks_of_Inr: "masks_of enc = Inr ms \<Longrightarrow> map context_mask enc = map Some ms"
proof (induction enc arbitrary: ms)
  case Nil
  then show ?case by simp
next
  case (Cons b bs)
  then show ?case by (auto split: option.splits sum.splits)
qed

lemma cat_dim0_Inr: "cat_dim0 ts = Inr c \<Longrightarrow> c = concat ts"
  by (auto simp: cat_dim0_def split: list.splits if_splits)

lemma index_rows_Inr: "index_rows t idx = Inr r \<Longrightarrow> r = map (\<lambda>i. t ! i) idx"
  by (auto simp: index_rows_def split: if_splits)

lemma length_filter_concat:
  "length (filter P (concat xss)) = sum_list (map (\<lambda>r. length (filter P r)) xss)"
  by (induction xss) simp_all

lemma boolean_index_length:
  "boolean_index d fm = Inr r \<Longrightarrow> length r = length (filter (\<lambda>b. b) fm)"
proof -
  assume "boolean_index d fm = Inr r"
  then have len: "length d = length fm" and r: "r = map fst (filter snd (zip d fm))"
    by (auto simp: boolean_index_def split: if_splits)
  have "length r = length (filter (\<lambda>b. b) (map snd (zip d fm)))"
    unfolding r by (simp add: filter_map comp_def)
  then show ?thesis using len by simp
qed

lemma flatten_batches_Inr:
  assumes "flatten_batches e_dim enc ridx = Inr (D, doclens)" and "masks_of enc = Inr ms"
  shows "sum_list doclens = length D"
    and "doclens = map (\<lambda>i. length (filter (\<lambda>b. b) (concat ms ! i))) ridx"
proof -
  from assms obtain D_cat D1 mask_cat msk D'
    where c2: "cat_dim0 ms = Inr mask_cat"
      and i2: "index_rows mask_cat ridx = Inr msk"
      and bi: "boolean_index D' (concat msk) = Inr D"
      and dl: "doclens = map (\<lambda>r. length (filter (\<lambda>b. b) r)) msk"
    by (auto simp: flatten_batches_def Let_def split: sum.splits)
  have msk: "msk = map (\<lambda>i. concat ms ! i) ridx"
    using cat_dim0_Inr [OF c2] index_rows_Inr [OF i2] by simp
  show "sum_list doclens = length D"
    using boolean_index_length [OF bi] by (simp add: dl length_filter_concat)
  show "doclens = map (\<lambda>i. length (filter (\<lambda>b. b) (concat ms ! i))) ridx"
    by (simp add: dl msk comp_def)
qed


text \<open>The mask that \<open>doc\<close> returns, batch by batch.\<close>

lemma text_branch_Inr:
  "text_branch encoder linear_layer skip (Some ids) (Some am) = Inr t \<Longrightarrow>
   \<exists>sl te. skip = Some sl \<and> t = Some (te, mask_ids ids sl)"
  by (auto simp: text_branch_def Let_def split: option.splits sum.splits if_splits)

lemma image_branch_pixels:
  "image_branch encoder projection p d (Some px) None = Inr img \<Longrightarrow>
   \<exists>ve. img = Some (ve, length px)"
  by (auto simp: image_branch_def Let_def split: sum.splits)

lemma image_branch_features:
  "image_branch encoder projection p d None (Some f) = Inr img \<Longrightarrow>
   \<exists>ve. img = Some (ve, length f)"
  by (auto simp: image_branch_def Let_def split: sum.splits)

lemma context_output_mask:
  "context_output m D0 msk kd True = Inr out \<Longrightarrow> context_mask out = Some msk"
  by (auto simp: context_output_def Let_def split: if_splits sum.splits)

lemma concat_context_both:
  assumes "concat_context P True True img (Some (te, mk)) = Inr (D0, msk)"
  shows "\<exists>ve bs. img = Some (ve, bs) \<and> length mk = bs \<and>
           msk = map (\<lambda>r. r @ replicate P True) mk"
proof -
  from assms obtain ve bs where img: "img = Some (ve, bs)"
    by (cases img) (auto simp: concat_context_def)
  from assms img have cat: "cat_dim1 mk (replicate bs (replicate P True)) = Inr msk"
    by (auto simp: concat_context_def Let_def split: sum.splits)
  then have len: "length mk = bs" and msk: "msk = map (\<lambda>(x, y). x @ y) (zip mk (replicate bs (replicate P True)))"
    by (auto simp: cat_dim1_def split: if_splits)
  have "msk = map (\<lambda>r. r @ replicate P True) mk"
    unfolding msk using len by (intro nth_equalityI) simp_all
  then show ?thesis using img len by simp
qed

lemma concat_context_vision:
  assumes "concat_context P True False img txt = Inr (D0, msk)"
  shows "\<exists>ve bs. img = Some (ve, bs) \<and> msk = replicate bs (replicate P True)"
  using assms by (cases img) (auto simp: concat_context_def)

lemma concat_context_text:
  assumes "concat_context P False True img (Some (te, mk)) = Inr (D0, msk)"
  shows "msk = mk"
  using assms by (simp add: concat_context_def)

lemma concat_context_none: "concat_context P False False img txt = Inl UnboundLocalError"
  by (simp add: concat_context_def)


lemma doc_context_mask:
  assumes run: "doc m (Some ids) (Some am) px feats None None kd True = Inr out"
    and skip: "skiplist m = Some sl"
    and px: "\<And>p. px = Some p \<Longrightarrow> length p = length ids"
    and feats: "\<And>f. feats = Some f \<Longrightarrow> length f = length ids"
  shows "context_mask out = Some (map (context_mask_row m sl) ids)"
proof -
  let ?cv = "context_concat_output_from_vision_encoder m"
  let ?ct = "context_concat_output_from_text_encoder m"
  let ?P = "mapping_network_prefix_length m"
  from run obtain tx img D0 msk where
    tb: "text_branch (context_text_encoder m) (context_text_encoder_linear m) (skiplist m)
           (Some ids) (Some am) = Inr tx"
    and ib: "image_branch (context_vision_encoder m) (context_vision_projection m) ?P
           (text_encoder_embedding_size m) px feats = Inr img"
    and cc: "concat_context ?P ?cv ?ct img tx = Inr (D0, msk)"
    and co: "context_output m D0 msk kd True = Inr out"
    by (auto simp: doc_def Let_def split: if_splits sum.splits prod.splits)
  from text_branch_Inr [OF tb] skip obtain te where tx: "tx = Some (te, mask_ids ids sl)"
    by auto
  have out: "context_mask out = Some msk" using context_output_mask [OF co] .
  have count: "bs = length ids" if "img = Some (ve, bs)" for ve bs
  proof (cases px)
    case None
    show ?thesis
    proof (cases feats)
      case None
      then show ?thesis using ib \<open>px = None\<close> that by (simp add: image_branch_absent)
    next
      case (Some f)
      then show ?thesis
        using image_branch_features [of _ _ _ _ f img] ib \<open>px = None\<close> that feats by auto
    qed
  next
    case (Some p)
    show ?thesis
    proof (cases feats)
      case None
      then show ?thesis
        using image_branch_pixels [of _ _ _ _ p img] ib Some that px by auto
    next
      case (Some f)
      then show ?thesis using ib \<open>px = Some p\<close> by (simp add: image_branch_def)
    qed
  qed
  have keep: "mask_ids ids sl = map (map (\<lambda>x. x \<notin> set sl \<and> x \<noteq> 0)) ids"
    by (simp add: mask_ids_def)
  consider (both) "?cv" "?ct" | (vision) "?cv" "\<not> ?ct" | (text_only) "\<not> ?cv" "?ct"
    | (none) "\<not> ?cv" "\<not> ?ct"
    by blast
  then have "msk = map (context_mask_row m sl) ids"
  proof cases
    case both
    then have "concat_context ?P True True img (Some (te, mask_ids ids sl)) = Inr (D0, msk)"
      using cc tx by simp
    from concat_context_both [OF this]
    have "msk = map (\<lambda>r. r @ replicate ?P True) (mask_ids ids sl)" by auto
    then show ?thesis using both by (simp add: keep context_mask_row_def Let_def comp_def)
  next
    case vision
    then have "concat_context ?P True False img tx = Inr (D0, msk)" using cc by simp
    from concat_context_vision [OF this] obtain ve bs
      where img: "img = Some (ve, bs)" and msk: "msk = replicate bs (replicate ?P True)"
      by auto
    have "bs = length ids" using count [OF img] .
    then have "msk = map (\<lambda>r. replicate ?P True) ids"
      unfolding msk by (intro nth_equalityI) simp_all
    then show ?thesis using vision by (simp add: context_mask_row_def Let_def)
  next
    case text_only
    then have "concat_context ?P False True img (Some (te, mask_ids ids sl)) = Inr (D0, msk)"
      using cc tx by simp
    from concat_context_text [OF this] show ?thesis
      using text_only by (simp add: keep context_mask_row_def Let_def)
  next
    case none
    then show ?thesis using cc by (simp add: concat_context_none)
  qed
  then show ?thesis using out by simp
qed

lemma for_each_length: "for_each f xs = Inr ys \<Longrightarrow> length ys = length xs"
  using for_each_Inr by blast

lemma encode_batch_mask:
  assumes run: "encode_batch m load_image kd True to_cpu b = Inr out"
    and skip: "skiplist m = Some sl" and al: "aligned b"
  shows "context_mask out = Some (map (context_mask_row m sl) (ids_of_batch b))"
proof (cases b)
  case (TextBatch ids am)
  then have "doc m (Some ids) (Some am) None None None None kd True = Inr out"
    using run by (auto simp: encode_batch_def indexing_doc_def split: sum.splits if_splits)
  from doc_context_mask [OF this skip] show ?thesis using TextBatch by simp
next
  case (MultiBatch ids am f paths)
  show ?thesis
  proof (cases f)
    case None
    then obtain px where ld: "for_each load_image paths = Inr px"
      and d: "doc m (Some ids) (Some am) (Some px) None None None kd True = Inr out"
      using run MultiBatch
      by (auto simp: encode_batch_def indexing_doc_def split: sum.splits if_splits)
    have "length px = length ids" using for_each_length [OF ld] al MultiBatch None by simp
    then show ?thesis using doc_context_mask [OF d skip] MultiBatch by simp
  next
    case (Some f')
    then have d: "doc m (Some ids) (Some am) None (Some f') None None kd True = Inr out"
      using run MultiBatch
      by (auto simp: encode_batch_def indexing_doc_def split: sum.splits if_splits)
    have "length f' = length ids" using al MultiBatch Some by simp
    then show ?thesis using doc_context_mask [OF d skip] MultiBatch by simp
  qed
qed

lemma length_chunk: "length xs = length ys \<Longrightarrow> length (chunk b i xs) = length (chunk b i ys)"
  by (simp add: chunk_def)

lemma sort_and_split_Inr:
  assumes "sort_and_split ids msk images b = Inr (batches, ridx)"
  shows "ridx = reverse_of (sort_indices msk)"
    and "length batches = n_batches (length msk) b"
    and "i < length batches \<Longrightarrow>
         ids_of_batch (batches ! i) = chunk b i (map (\<lambda>j. ids ! j) (sort_indices msk)) \<and>
         aligned (batches ! i)"
proof -
  let ?ix = "sort_indices msk"
  let ?n = "n_batches (length ?ix) b"
  have lix: "length ?ix = length msk" by (simp add: sort_indices_def length_argsort)
  from assms obtain ids' msk' where
    i1: "index_rows ids ?ix = Inr ids'" and i2: "index_rows msk ?ix = Inr msk'"
    by (auto simp: sort_and_split_def Let_def split: sum.splits)
  have ids': "ids' = map (\<lambda>j. ids ! j) ?ix" using index_rows_Inr [OF i1] .
  have lids: "length ids' = length ?ix" using ids' by simp
  show "ridx = reverse_of (sort_indices msk)"
    using assms
    by (auto simp: sort_and_split_def Let_def split: sum.splits option.splits prod.splits)
  have cases: "(images = None \<and>
        batches = map (\<lambda>i. TextBatch (chunk b i ids') (chunk b i msk')) [0..<?n]) \<or>
     (\<exists>paths'. length paths' = length ?ix \<and>
        batches = map (\<lambda>i. MultiBatch (chunk b i ids') (chunk b i msk') None (chunk b i paths')) [0..<?n]) \<or>
     (\<exists>paths' f'. length paths' = length ?ix \<and> length f' = length ?ix \<and>
        batches = map (\<lambda>i. MultiBatch (chunk b i ids') (chunk b i msk') (Some (chunk b i f'))
                           (chunk b i paths')) [0..<?n])"
  proof (cases images)
    case None
    then show ?thesis using assms i1 i2 by (simp add: sort_and_split_def Let_def)
  next
    case (Some im)
    obtain feats paths where im: "im = (feats, paths)" by (cases im)
    from assms Some im i1 i2 obtain paths' where
      p: "index_rows paths ?ix = Inr paths'"
      by (auto simp: sort_and_split_def Let_def split: sum.splits)
    have lp: "length paths' = length ?ix" using index_rows_Inr [OF p] by simp
    show ?thesis
    proof (cases feats)
      case None
      then have "batches = map (\<lambda>i. MultiBatch (chunk b i ids') (chunk b i msk') None
                                   (chunk b i paths')) [0..<?n]"
        using assms Some im i1 i2 p by (simp add: sort_and_split_def Let_def)
      then show ?thesis using lp by blast
    next
      case (Some f)
      from assms \<open>images = Some im\<close> im Some i1 i2 p obtain f' where
        f: "index_rows f ?ix = Inr f'"
        by (auto simp: sort_and_split_def Let_def split: sum.splits)
      have lf: "length f' = length ?ix" using index_rows_Inr [OF f] by simp
      have "batches = map (\<lambda>i. MultiBatch (chunk b i ids') (chunk b i msk') (Some (chunk b i f'))
                           (chunk b i paths')) [0..<?n]"
        using assms \<open>images = Some im\<close> im Some i1 i2 p f by (simp add: sort_and_split_def Let_def)
      then show ?thesis using lp lf by blast
    qed
  qed
  then show "length batches = n_batches (length msk) b" using lix by auto
  show "ids_of_batch (batches ! i) = chunk b i (map (\<lambda>j. ids ! j) (sort_indices msk)) \<and>
         aligned (batches ! i)" if i: "i < length batches"
  proof -
    have ilt: "i < ?n" using i cases by auto
    from cases show ?thesis
    proof (elim disjE exE conjE)
      assume "batches = map (\<lambda>i. TextBatch (chunk b i ids') (chunk b i msk')) [0..<?n]"
      then show ?thesis using ilt ids' by simp
    next
      fix paths' assume "length paths' = length ?ix"
        and "batches = map (\<lambda>i. MultiBatch (chunk b i ids') (chunk b i msk') None (chunk b i paths')) [0..<?n]"
      then show ?thesis
        using ilt ids' lids length_chunk [of paths' ids' b i] by simp
    next
      fix paths' f' assume "length paths' = length ?ix" and "length f' = length ?ix"
        and "batches = map (\<lambda>i. MultiBatch (chunk b i ids') (chunk b i msk') (Some (chunk b i f'))
                           (chunk b i paths')) [0..<?n]"
      then show ?thesis
        using ilt ids' lids length_chunk [of paths' ids' b i] length_chunk [of f' ids' b i] by simp
    qed
  qed
qed


lemma masks_of_Some: "map context_mask enc = map Some ms \<Longrightarrow> masks_of enc = Inr ms"
proof (induction enc arbitrary: ms)
  case Nil
  then show ?case by simp
next
  case (Cons b bs)
  then obtain mk ms' where "ms = mk # ms'" by (cases ms) auto
  then show ?case using Cons by simp
qed

text \<open>
  Claim C5. Whenever \<open>docFromText\<close> returns in the flattened mode, the pair
  \<open>(D, doclens)\<close> it returns satisfies: the sum of \<open>doclens\<close> is the number of rows of \<open>D\<close>, and
  \<open>doclens\<close> lists, in the original order of the documents (the order of the tokenizer's
  output, before the sort), the number of true entries of the mask row that \<open>doc\<close> gives
  each document. The tokenizer returns as many attention-mask rows as rows of token ids.
\<close>

theorem docFromText_flatten_doclens:
  assumes run: "docFromText m context_tokenizer load_image docs batch_size Keep_flatten
                  to_cpu return_tokens = Inr (Flattened D doclens returned_text)"
    and un: "unpack_docs docs = Inr (texts, images)"
    and tok: "context_tokenizer texts = (ids, msk)"
    and len: "length ids = length msk"
    and skip: "skiplist m = Some sl"
  shows "sum_list doclens = length D \<and>
    doclens = map (\<lambda>row. length (filter (\<lambda>b. b) (context_mask_row m sl row))) ids"
proof -
  let ?row = "context_mask_row m sl"
  let ?ix = "sort_indices msk"
  let ?ids' = "map (\<lambda>j. ids ! j) ?ix"
  from run un tok obtain bsize where bs: "batch_size = Some bsize" and b0: "bsize \<noteq> 0"
    by (cases batch_size) (auto simp: docFromText_def Let_def split: if_splits sum.splits)
  let ?N = "length msk"
  let ?n = "n_batches ?N bsize"
  from run un tok bs b0 obtain batches ridx enc where
    ss: "sort_and_split ids msk images bsize = Inr (batches, ridx)"
    and fe: "for_each (encode_batch m load_image Keep_return_mask True to_cpu) batches = Inr enc"
    and fb: "flatten_batches (text_encoder_embedding_size m) enc ridx = Inr (D, doclens)"
    by (auto simp: docFromText_def Let_def split: if_splits sum.splits prod.splits)
  note S = sort_and_split_Inr [OF ss]
  have lix: "length ?ix = ?N" by (simp add: sort_indices_def length_argsort)
  have lenc: "length enc = ?n" using for_each_length [OF fe] S(2) by simp
  let ?ms = "map (\<lambda>i. map ?row (chunk bsize i ?ids')) [0..<?n]"
  have "map context_mask enc = map Some ?ms"
  proof (rule nth_equalityI)
    show "length (map context_mask enc) = length (map Some ?ms)" using lenc by simp
  next
    fix i assume "i < length (map context_mask enc)"
    then have i: "i < length batches" using lenc S(2) by simp
    have "encode_batch m load_image Keep_return_mask True to_cpu (batches ! i) = Inr (enc ! i)"
      using for_each_Inr [OF fe] i by simp
    from encode_batch_mask [OF this skip] S(3) [OF i]
    have "context_mask (enc ! i) = Some (map ?row (chunk bsize i ?ids'))" by simp
    then show "map context_mask enc ! i = map Some ?ms ! i"
      using i lenc S(2) by simp
  qed
  then have masks: "masks_of enc = Inr ?ms" by (rule masks_of_Some)
  note F = flatten_batches_Inr [OF fb masks]
  have "concat ?ms = map ?row (concat (map (\<lambda>i. chunk bsize i ?ids') [0..<?n]))"
    by (simp add: map_concat comp_def)
  also have "concat (map (\<lambda>i. chunk bsize i ?ids') [0..<?n]) = ?ids'"
    using concat_chunks [of bsize ?ids'] b0 lix by simp
  finally have cat: "concat ?ms = map ?row ?ids'" .
  have perm: "mset ?ix = mset [0..<?N]"
    using mset_argsort [of "map sum_list msk"] by (simp add: sort_indices_def)
  have ridx: "ridx = argsort ?ix" using S(1) by (simp add: reverse_of_def)
  have lr: "length ridx = ?N" using ridx lix by (simp add: length_argsort)
  have entry: "concat ?ms ! (ridx ! j) = ?row (ids ! j)" if j: "j < ?N" for j
  proof -
    have rb: "ridx ! j < ?N" using argsort_bound [of j ?ix] j lix ridx by simp
    have "?ix ! (ridx ! j) = j" using argsort_inverse [OF perm j] ridx by simp
    then show ?thesis using cat rb lix by simp
  qed
  have "doclens = map (\<lambda>row. length (filter (\<lambda>b. b) (?row row))) ids"
  proof (rule nth_equalityI)
    show "length doclens = length (map (\<lambda>row. length (filter (\<lambda>b. b) (?row row))) ids)"
      using F(2) lr len by simp
  next
    fix j assume "j < length doclens"
    then have j: "j < ?N" using F(2) lr by simp
    show "doclens ! j = map (\<lambda>row. length (filter (\<lambda>b. b) (?row row))) ids ! j"
      using F(2) j lr len entry [OF j] by simp
  qed
  then show ?thesis using F(1) by simp
qed


text \<open>Three texts of 3, 1 and 2 tokens in batches of two: the sort puts the first text
  last, and \<open>doclens\<close> comes back as \<open>[3, 1, 2]\<close>.\<close>

theorem docFromText_flatten_doclens_witness:
  "docFromText example_model example_tokenizer (\<lambda>p::nat option. Inr (0::int))
     (Texts [''abc'', ''d'', ''ef'']) (Some 2) Keep_flatten False False
     = Inr (Flattened [[97], [98], [99], [100], [101], [102]] [3, 1, 2] []) \<and>
   sum_list [3, 1, 2] = length [[97], [98], [99], [100], [101], [102::int]] \<and>
   [3, 1, 2] = map (\<lambda>row. length (filter (\<lambda>b. b) (context_mask_row example_model [] row)))
                 [[97, 98, 99], [100, 0, 0], [101, 102, 0]]"
proof -
  have run: "docFromText example_model example_tokenizer (\<lambda>p::nat option. Inr (0::int))
     (Texts [''abc'', ''d'', ''ef'']) (Some 2) Keep_flatten False False
     = Inr (Flattened [[97], [98], [99], [100], [101], [102]] [3, 1, 2] [])"
    by code_simp
  have un: "unpack_docs (Texts [''abc'', ''d'', ''ef''] :: (int, nat) docs)
      = Inr ([''abc'', ''d'', ''ef''], None)"
    by (simp add: unpack_docs_def)
  have tok: "example_tokenizer [''abc'', ''d'', ''ef'']
      = ([[97, 98, 99], [100, 0, 0], [101, 102, 0]], [[1, 1, 1], [1, 0, 0], [1, 1, 0]])"
    by code_simp
  have len: "length [[97, 98, 99], [100, 0, 0], [101, 102, 0::nat]]
      = length [[1, 1, 1], [1, 0, 0], [1, 1, 0::nat]]"
    by simp
  have skip: "skiplist example_model = Some []" by (simp add: example_model_def)
  show ?thesis
    using run docFromText_flatten_doclens [OF run un tok len skip] by blast
qed


end
